theory Spec2Isabelle
  imports
    Main
    "HOL-Library.Finite_Map"
    "HOL-Library.Char_ord"
    "HOL-Library.List_Lexorder"
    "HOL-Library.Product_Lexorder"
    "HOL-Library.Sublist"
begin

section \<open>DAT: recipe annotations and pipeline inference (dat/vistrail\_data.py)\<close>

text \<open>
  The development embeds the class \<open>VistrailData\<close> of \<^verbatim>\<open>dat/vistrail_data.py\<close>:
  the two annotation codecs (\<^verbatim>\<open>_build_recipe_annotation\<close>,
  \<^verbatim>\<open>_read_recipe_annotation\<close>, \<^verbatim>\<open>_build_portmap_annotation\<close>,
  \<^verbatim>\<open>_read_portmap_annotation\<close>), the loading of the annotations in
  \<^verbatim>\<open>__init__\<close>, \<^verbatim>\<open>created_pipeline\<close>, \<^verbatim>\<open>get_pipeline\<close>,
  \<^verbatim>\<open>_infer_pipelineinfo\<close> and the variable operations.

  Conventions.
  \<^item> A Python 2 \<^verbatim>\<open>str\<close> is a byte string: \<open>string\<close>, compared bytewise and
    lexicographically (\<open>Char_ord\<close>, \<open>List_Lexorder\<close>), as \<^verbatim>\<open>sorted\<close> does.
  \<^item> A \<^verbatim>\<open>dict\<close> is a finite map (\<open>fmap\<close>); \<^verbatim>\<open>sorted(d.iteritems(), key=...)\<close>
    on the key is \<open>sorted_list_of_fmap\<close>. Tuples and lists are both HOL lists.
  \<^item> A raised exception is a value of \<open>error\<close>; a function that can raise returns
    \<open>error + 'a\<close>, and a method of the store returns the store as it is left together
    with the outcome, since Python keeps the mutations made before the raise.
\<close>

datatype error = KeyError | ValueError | TypeError | AttributeError | RuntimeError | StopIteration

subsection \<open>Strings: \<^verbatim>\<open>split\<close>, \<^verbatim>\<open>join\<close>, \<^verbatim>\<open>'%d'\<close>, \<^verbatim>\<open>int\<close>\<close>

text \<open>\<^verbatim>\<open>s.split(sep)\<close> for a one-character separator: always at least one piece.\<close>

fun py_split :: "char \<Rightarrow> string \<Rightarrow> string list" where
  "py_split sep [] = [[]]"
| "py_split sep (c # cs) =
     (if c = sep then [] # py_split sep cs
      else (case py_split sep cs of
              [] \<Rightarrow> [[c]]
            | w # ws \<Rightarrow> (c # w) # ws))"

text \<open>\<^verbatim>\<open>sep.join(xs)\<close>.\<close>

fun py_join :: "string \<Rightarrow> string list \<Rightarrow> string" where
  "py_join sep [] = []"
| "py_join sep [x] = x"
| "py_join sep (x # y # ys) = x @ sep @ py_join sep (y # ys)"

definition digit_char :: "nat \<Rightarrow> char" where
  "digit_char d = char_of (48 + d)"

function digits :: "nat \<Rightarrow> string" where
  "digits n = (if n < 10 then [digit_char n] else digits (n div 10) @ [digit_char (n mod 10)])"
  by pat_completeness auto
termination
  by (relation "measure id") auto

declare digits.simps [simp del]

text \<open>\<^verbatim>\<open>'%d' % n\<close> for an integer.\<close>

definition str_int :: "int \<Rightarrow> string" where
  "str_int n = (if n < 0 then CHR ''-'' # digits (nat (- n)) else digits (nat n))"

definition is_space :: "char \<Rightarrow> bool" where
  "is_space c \<longleftrightarrow> c \<in> {CHR '' '', CHR 0x09, CHR 0x0A, CHR 0x0B, CHR 0x0C, CHR 0x0D}"

definition is_digit :: "char \<Rightarrow> bool" where
  "is_digit c \<longleftrightarrow> CHR ''0'' \<le> c \<and> c \<le> CHR ''9''"

definition digit_val :: "char \<Rightarrow> nat" where
  "digit_val c = of_char c - 48"

definition strip :: "string \<Rightarrow> string" where
  "strip s = dropWhile is_space (rev (dropWhile is_space (rev s)))"

definition digits_val :: "string \<Rightarrow> nat" where
  "digits_val ds = foldl (\<lambda>a c. 10 * a + digit_val c) 0 ds"

text \<open>
  \<^verbatim>\<open>int(s)\<close> on a byte string: surrounding whitespace, an optional sign, then decimal
  digits; anything else raises ValueError.
\<close>

definition py_int :: "string \<Rightarrow> error + int" where
  "py_int s =
     (let t = strip s;
          neg = (case t of [] \<Rightarrow> False | c # _ \<Rightarrow> c = CHR ''-'');
          ds = (case t of [] \<Rightarrow> [] | c # r \<Rightarrow> if c = CHR ''-'' \<or> c = CHR ''+'' then r else t)
      in if ds \<noteq> [] \<and> list_all is_digit ds
         then Inr (if neg then - int (digits_val ds) else int (digits_val ds))
         else Inl ValueError)"

subsection \<open>\<^verbatim>\<open>urllib2.quote(s, safe='')\<close> and \<^verbatim>\<open>urllib2.unquote\<close>\<close>

text \<open>
  The Python 2 standard library: \<^verbatim>\<open>quote\<close> keeps the letters, the digits and
  \<^verbatim>\<open>_.-\<close>, and writes every other byte as \<^verbatim>\<open>%XX\<close> with two upper-case
  hexadecimal digits. \<^verbatim>\<open>unquote\<close> splits at \<^verbatim>\<open>%\<close> and replaces the two
  characters after each \<^verbatim>\<open>%\<close> when both are hexadecimal digits; otherwise the
  \<^verbatim>\<open>%\<close> stays.
\<close>

definition always_safe :: "char \<Rightarrow> bool" where
  "always_safe c \<longleftrightarrow>
     (CHR ''A'' \<le> c \<and> c \<le> CHR ''Z'') \<or> (CHR ''a'' \<le> c \<and> c \<le> CHR ''z'') \<or>
     (CHR ''0'' \<le> c \<and> c \<le> CHR ''9'') \<or> c = CHR ''_'' \<or> c = CHR ''.'' \<or> c = CHR ''-''"

definition hexdigit :: "nat \<Rightarrow> char" where
  "hexdigit d = (if d < 10 then char_of (48 + d) else char_of (55 + d))"

definition hexval :: "char \<Rightarrow> nat option" where
  "hexval c =
     (if CHR ''0'' \<le> c \<and> c \<le> CHR ''9'' then Some (of_char c - 48)
      else if CHR ''A'' \<le> c \<and> c \<le> CHR ''F'' then Some (of_char c - 55)
      else if CHR ''a'' \<le> c \<and> c \<le> CHR ''f'' then Some (of_char c - 87)
      else None)"

definition quote_char :: "char \<Rightarrow> string" where
  "quote_char c =
     (if always_safe c then [c]
      else [CHR ''%'', hexdigit (of_char c div 16), hexdigit (of_char c mod 16)])"

definition quote :: "string \<Rightarrow> string" where
  "quote s = concat (map quote_char s)"

definition unquote_item :: "string \<Rightarrow> string" where
  "unquote_item item =
     (case item of
        h1 # h2 # rest \<Rightarrow>
          (case (hexval h1, hexval h2) of
             (Some a, Some b) \<Rightarrow> char_of (16 * a + b) # rest
           | _ \<Rightarrow> CHR ''%'' # item)
      | _ \<Rightarrow> CHR ''%'' # item)"

definition unquote :: "string \<Rightarrow> string" where
  "unquote s =
     (case py_split CHR ''%'' s of
        [] \<Rightarrow> s
      | b # bits \<Rightarrow> b @ concat (map unquote_item bits))"

subsection \<open>The data model\<close>

text \<open>
  \<^verbatim>\<open>vistrail_data.py\<close> imports \<^verbatim>\<open>RecipeParameterValue\<close>, \<^verbatim>\<open>DATRecipe\<close> and
  \<^verbatim>\<open>PipelineInformation\<close> from the package \<^verbatim>\<open>dat\<close>. Of the objects it is handed
  and of the objects in its dictionaries it reads \<^verbatim>\<open>recipe.plot\<close>,
  \<^verbatim>\<open>recipe.parameters\<close>, \<^verbatim>\<open>pipeline.version\<close>, \<^verbatim>\<open>.recipe\<close>, \<^verbatim>\<open>.conn_map\<close> and
  \<^verbatim>\<open>.port_map\<close>. The records \<^verbatim>\<open>DATRecipe\<close> and \<^verbatim>\<open>PipelineInformation\<close> below have
  exactly these attributes: they are the objects the methods are handed and the objects
  in the store.

  The module also builds such objects, by \<^verbatim>\<open>DATRecipe(plot, parameters)\<close> and
  \<^verbatim>\<open>PipelineInformation(version, recipe, conn_map, port_map)\<close>. The file
  \<^verbatim>\<open>dat/__init__.py\<close> declares the two classes otherwise:
  \<^verbatim>\<open>DATRecipe.__init__(self, plot, variables)\<close> stores the dictionary as
  \<^verbatim>\<open>self.variables\<close> and hashes \<^verbatim>\<open>v.name\<close> for each of its values, and
  \<^verbatim>\<open>PipelineInformation.__init__(self, version, recipe, port_map=None, var_map=None)\<close>
  stores its third argument as \<^verbatim>\<open>port_map\<close> and its fourth as \<^verbatim>\<open>var_map\<close>; the file
  declares no \<^verbatim>\<open>RecipeParameterValue\<close>. With these declarations the constructor call of
  the decoder raises for every dictionary that is not empty (\<open>DATRecipe_init\<close> and
  \<open>read_recipe_annotation_declared\<close> below). The loading of the document, the store
  methods and inference are embedded over the records, with a constructor call building
  the record from its arguments; what they state is about the steps they take on such
  records, and the functions \<open>read_recipe_fields\<close> and \<open>infer_fields\<close> give the
  values computed up to the constructor calls.

  Tuples and lists are both HOL lists, and equality of two of them says that they have
  the same items in the same order. In Python a tuple and a list are never equal, so
  equality of two records here is not \<^verbatim>\<open>DATRecipe.__eq__\<close> between a decoded recipe
  (tuples) and an inferred one (lists).
\<close>

record Plot =
  package_identifier :: string
  plot_name :: string

text \<open>A variable (\<^verbatim>\<open>Variable.VariableInformation\<close>): its name and its type.\<close>

record Variable =
  var_name :: string
  var_type :: string

text \<open>
  Modelled from the spec: the class \<^verbatim>\<open>RecipeParameterValue\<close>, which
  \<^verbatim>\<open>vistrail_data.py\<close> imports from \<^verbatim>\<open>dat\<close> and which no source file
  defines. The spec: a tagged value, either a literal constant string or a reference to
  a named variable with an optional type-cast operator name; exactly the fields matching
  the kind are populated.
\<close>

datatype RecipeParameterValue =
    is_CONSTANT: CONSTANT (rpv_constant: string)
  | is_VARIABLE: VARIABLE (rpv_variable: Variable) (rpv_typecast: "string option")

text \<open>
  Modelled from the spec: the constructor \<^verbatim>\<open>RecipeParameterValue(variable=...,
  constant=..., typecast=...)\<close> of that class. The decoder calls it with what
  \<^verbatim>\<open>get_variable\<close> returned, which is \<^verbatim>\<open>None\<close> for an unknown name. By the spec an
  unresolvable variable name fails the decode, and a value has exactly the fields of its
  kind: the constructor raises ValueError when it is given neither a variable nor a
  constant, or both.
\<close>

definition RecipeParameterValue_init ::
  "Variable option \<Rightarrow> string option \<Rightarrow> string option \<Rightarrow> error + RecipeParameterValue" where
  "RecipeParameterValue_init var const tc =
     (case (var, const) of
        (Some v, None) \<Rightarrow> Inr (VARIABLE v tc)
      | (None, Some c) \<Rightarrow> (if tc = None then Inr (CONSTANT c) else Inl ValueError)
      | _ \<Rightarrow> Inl ValueError)"

type_synonym parameters_t = "(string, RecipeParameterValue list) fmap"
type_synonym conn_map_t = "(string, int list list) fmap"
type_synonym port_map_t = "(string, (int \<times> string) list) fmap"

record DATRecipe =
  plot :: Plot
  parameters :: parameters_t

record PipelineInformation =
  version :: int
  recipe :: DATRecipe
  conn_map :: conn_map_t
  port_map :: "port_map_t option"

subsection \<open>\<^verbatim>\<open>_build_recipe_annotation\<close>\<close>

text \<open>One value of a parameter with its connection list (the body of the inner loop).\<close>

definition build_value :: "RecipeParameterValue \<Rightarrow> int list \<Rightarrow> string" where
  "build_value param_val conn_list =
     (case param_val of
        CONSTANT c \<Rightarrow> quote c
      | VARIABLE v tc \<Rightarrow> var_name v @ (case tc of None \<Rightarrow> [] | Some t \<Rightarrow> '','' @ t))
     @ '':'' @ py_join '','' (map str_int conn_list)"

text \<open>
  The inner loop over \<^verbatim>\<open>izip(count(), param_values, conn_map[param])\<close>: it stops
  with the shorter of the two lists, and writes \<^verbatim>\<open>|\<close> before every item but the
  first.
\<close>

fun build_values :: "nat \<Rightarrow> RecipeParameterValue list \<Rightarrow> int list list \<Rightarrow> string" where
  "build_values i (param_val # vs) (conn_list # cs) =
     (if i \<noteq> 0 then ''|'' else []) @ build_value param_val conn_list @ build_values (Suc i) vs cs"
| "build_values i _ _ = []"

text \<open>One turn of the outer loop: what is appended for one parameter.\<close>

definition build_param ::
  "conn_map_t \<Rightarrow> string \<Rightarrow> RecipeParameterValue list \<Rightarrow> error + string" where
  "build_param cm param param_values =
     (case param_values of
        [] \<Rightarrow> Inr []
      | v0 # _ \<Rightarrow>
          if is_CONSTANT v0 \<and> length param_values \<noteq> 1 then Inl ValueError
          else (case fmlookup cm param of
                  None \<Rightarrow> Inl KeyError
                | Some conns \<Rightarrow>
                    Inr ('';'' @ param @ ''='' @ (if is_CONSTANT v0 then ''c='' else ''v='')
                         @ build_values 0 param_values conns)))"

fun build_params ::
  "conn_map_t \<Rightarrow> (string \<times> RecipeParameterValue list) list \<Rightarrow> string \<Rightarrow> error + string" where
  "build_params cm [] acc = Inr acc"
| "build_params cm ((param, param_values) # rest) acc =
     (case build_param cm param param_values of
        Inl e \<Rightarrow> Inl e
      | Inr s \<Rightarrow> build_params cm rest (acc @ s))"

definition build_recipe_annotation :: "DATRecipe \<Rightarrow> conn_map_t \<Rightarrow> error + string" where
  "build_recipe_annotation r cm =
     build_params cm (sorted_list_of_fmap (parameters r))
       (package_identifier (plot r) @ '','' @ plot_name (plot r))"

subsection \<open>\<^verbatim>\<open>_read_recipe_annotation\<close>\<close>

text \<open>Running a raising function over a list: the first exception ends the loop.\<close>

fun map_err :: "('a \<Rightarrow> error + 'b) \<Rightarrow> 'a list \<Rightarrow> error + 'b list" where
  "map_err f [] = Inr []"
| "map_err f (x # xs) =
     (case f x of
        Inl e \<Rightarrow> Inl e
      | Inr y \<Rightarrow> (case map_err f xs of Inl e \<Rightarrow> Inl e | Inr ys \<Rightarrow> Inr (y # ys)))"

definition read_connlist :: "string \<Rightarrow> error + int list" where
  "read_connlist connlist = map_err py_int (py_split CHR '','' connlist)"

text \<open>
  \<^verbatim>\<open>VistrailData.get_variable\<close>: \<^verbatim>\<open>self._variables.get(varname)\<close>, which is
  \<^verbatim>\<open>None\<close> for an unknown name (the argument is always a \<^verbatim>\<open>str\<close> here).
\<close>

definition get_variable :: "(string, Variable) fmap \<Rightarrow> string \<Rightarrow> Variable option" where
  "get_variable vars varname = fmlookup vars varname"

text \<open>One value \<^verbatim>\<open>val\<close> of \<^verbatim>\<open>pvals\<close>: the parameter value and its connection list.\<close>

definition read_value ::
  "(string, Variable) fmap \<Rightarrow> string \<Rightarrow> string \<Rightarrow> error + (RecipeParameterValue \<times> int list)" where
  "read_value vars t val =
     (case py_split CHR '':'' val of
        [v0, v1] \<Rightarrow>
          (case (if t = ''c'' then RecipeParameterValue_init None (Some (unquote v0)) None
                 else (case py_split CHR '','' v0 of
                         [n] \<Rightarrow> RecipeParameterValue_init (get_variable vars n) None None
                       | [n, tc] \<Rightarrow> RecipeParameterValue_init (get_variable vars n) None (Some tc)
                       | _ \<Rightarrow> Inl ValueError)) of
             Inl e \<Rightarrow> Inl e
           | Inr pv \<Rightarrow> (case read_connlist v1 of Inl e \<Rightarrow> Inl e | Inr cl \<Rightarrow> Inr (pv, cl)))
      | _ \<Rightarrow> Inl ValueError)"

text \<open>One segment \<^verbatim>\<open>param\<close> after the plot: its name, values and connection lists.\<close>

definition read_param ::
  "(string, Variable) fmap \<Rightarrow> string \<Rightarrow>
     error + (string \<times> RecipeParameterValue list \<times> int list list)" where
  "read_param vars segment =
     (case py_split CHR ''='' segment of
        [param, t, pvals] \<Rightarrow>
          if t \<noteq> ''c'' \<and> t \<noteq> ''v'' then Inl ValueError
          else (case map_err (read_value vars t) (py_split CHR ''|'' pvals) of
                  Inl e \<Rightarrow> Inl e
                | Inr vals \<Rightarrow> Inr (param, map fst vals, map snd vals))
      | _ \<Rightarrow> Inl ValueError)"

fun read_params ::
  "(string, Variable) fmap \<Rightarrow> string list \<Rightarrow> parameters_t \<Rightarrow> conn_map_t \<Rightarrow>
     error + (parameters_t \<times> conn_map_t)" where
  "read_params vars [] ps cm = Inr (ps, cm)"
| "read_params vars (segment # rest) ps cm =
     (case read_param vars segment of
        Inl e \<Rightarrow> Inl e
      | Inr (param, plist, cplist) \<Rightarrow>
          read_params vars rest (fmupd param plist ps) (fmupd param cplist cm))"

text \<open>
  The body of the \<^verbatim>\<open>try\<close> up to its last statement: the values of \<^verbatim>\<open>plot\<close>,
  \<^verbatim>\<open>parameters\<close> and \<^verbatim>\<open>conn_map\<close> when \<^verbatim>\<open>return DATRecipe(plot, parameters), conn_map\<close>
  is reached. \<^verbatim>\<open>next(value)\<close> raises StopIteration on an exhausted iterator.
  \<^verbatim>\<open>GlobalManager.get_plot\<close> is not part of the sources: it is the parameter
  \<open>get_plot\<close>, \<open>None\<close> where it raises KeyError.
\<close>

definition read_recipe_fields ::
  "(string \<Rightarrow> string \<Rightarrow> Plot option) \<Rightarrow> (string, Variable) fmap \<Rightarrow> string \<Rightarrow>
     error + (Plot \<times> parameters_t \<times> conn_map_t)" where
  "read_recipe_fields get_plot vars text =
     (case py_split CHR '';'' text of
        [] \<Rightarrow> Inl StopIteration
      | plot_text # segments \<Rightarrow>
          (case py_split CHR '','' plot_text of
             [pkg, nm] \<Rightarrow>
               (case get_plot pkg nm of
                  None \<Rightarrow> Inl KeyError
                | Some p \<Rightarrow>
                    (case read_params vars segments fmempty fmempty of
                       Inl e \<Rightarrow> Inl e
                     | Inr (ps, cm) \<Rightarrow> Inr (p, ps, cm)))
           | _ \<Rightarrow> Inl ValueError))"

text \<open>
  The body of the \<^verbatim>\<open>try\<close> with the last statement building the record: a recipe with
  the attributes \<^verbatim>\<open>plot\<close> and \<^verbatim>\<open>parameters\<close>.
\<close>

definition read_recipe_body ::
  "(string \<Rightarrow> string \<Rightarrow> Plot option) \<Rightarrow> (string, Variable) fmap \<Rightarrow> string \<Rightarrow>
     error + (DATRecipe \<times> conn_map_t)" where
  "read_recipe_body get_plot vars text =
     (case read_recipe_fields get_plot vars text of
        Inl e \<Rightarrow> Inl e
      | Inr (p, ps, cm) \<Rightarrow> Inr (\<lparr>plot = p, parameters = ps\<rparr>, cm))"

text \<open>
  The \<^verbatim>\<open>except (KeyError, ValueError, TypeError)\<close> clause: these three become the
  result \<^verbatim>\<open>(None, None)\<close>, any other exception leaves the function.
\<close>

definition read_recipe_annotation ::
  "(string \<Rightarrow> string \<Rightarrow> Plot option) \<Rightarrow> (string, Variable) fmap \<Rightarrow> string \<Rightarrow>
     error + (DATRecipe \<times> conn_map_t) option" where
  "read_recipe_annotation get_plot vars text =
     (case read_recipe_body get_plot vars text of
        Inr rc \<Rightarrow> Inr (Some rc)
      | Inl e \<Rightarrow> if e \<in> {KeyError, ValueError, TypeError} then Inr None else Inl e)"

subsection \<open>The decoder with the class \<^verbatim>\<open>DATRecipe\<close> of \<^verbatim>\<open>dat/__init__.py\<close>\<close>

text \<open>
  An object of the class \<^verbatim>\<open>DATRecipe\<close> as \<^verbatim>\<open>dat/__init__.py\<close> declares it: the
  attributes \<^verbatim>\<open>plot\<close> and \<^verbatim>\<open>variables\<close> (the hash value is not part of the model).
\<close>

record DATRecipe_declared =
  declared_plot :: Plot
  declared_variables :: parameters_t

text \<open>
  \<^verbatim>\<open>v.name\<close> for a value \<^verbatim>\<open>v\<close> of the dictionary that \<^verbatim>\<open>vistrail_data.py\<close> passes to
  the constructor: \<^verbatim>\<open>v\<close> is a tuple (the decoder: \<^verbatim>\<open>parameters[param] = tuple(plist)\<close>)
  or a list (inference: \<^verbatim>\<open>new_parameters[param] = []\<close>) of parameter values, and neither
  has an attribute \<^verbatim>\<open>name\<close>.
\<close>

definition sequence_name :: "RecipeParameterValue list \<Rightarrow> error + string" where
  "sequence_name v = Inl AttributeError"

text \<open>
  \<^verbatim>\<open>DATRecipe.__init__\<close>: the generator in the hashed tuple evaluates \<^verbatim>\<open>v.name\<close> for
  every item of the dictionary, so the first item raises; the order of the items does not
  matter for that. With no item the object is built.
\<close>

definition DATRecipe_init :: "Plot \<Rightarrow> parameters_t \<Rightarrow> error + DATRecipe_declared" where
  "DATRecipe_init p variables =
     (case map_err (\<lambda>(k, v). sequence_name v) (sorted_list_of_fmap variables) of
        Inl e \<Rightarrow> Inl e
      | Inr names \<Rightarrow> Inr \<lparr>declared_plot = p, declared_variables = variables\<rparr>)"

text \<open>
  \<^verbatim>\<open>_read_recipe_annotation\<close> with this constructor in its last statement. The
  constructor is called inside the \<^verbatim>\<open>try\<close>, and AttributeError is not one of the three
  exceptions of the \<^verbatim>\<open>except\<close> clause.
\<close>

definition read_recipe_annotation_declared ::
  "(string \<Rightarrow> string \<Rightarrow> Plot option) \<Rightarrow> (string, Variable) fmap \<Rightarrow> string \<Rightarrow>
     error + (DATRecipe_declared \<times> conn_map_t) option" where
  "read_recipe_annotation_declared get_plot vars text =
     (case (case read_recipe_fields get_plot vars text of
              Inl e \<Rightarrow> Inl e
            | Inr (p, ps, cm) \<Rightarrow>
                (case DATRecipe_init p ps of Inl e \<Rightarrow> Inl e | Inr r \<Rightarrow> Inr (r, cm))) of
        Inr rc \<Rightarrow> Inr (Some rc)
      | Inl e \<Rightarrow> if e \<in> {KeyError, ValueError, TypeError} then Inr None else Inl e)"

subsection \<open>\<^verbatim>\<open>_build_portmap_annotation\<close> and \<^verbatim>\<open>_read_portmap_annotation\<close>\<close>

definition build_port :: "int \<times> string \<Rightarrow> string" where
  "build_port p = str_int (fst p) @ '','' @ snd p"

text \<open>The loop: a parameter whose port list is empty is skipped (\<^verbatim>\<open>continue\<close>).\<close>

fun build_portmap_entries :: "(string \<times> (int \<times> string) list) list \<Rightarrow> string list" where
  "build_portmap_entries [] = []"
| "build_portmap_entries ((param, port_list) # rest) =
     (if port_list = [] then build_portmap_entries rest
      else (param @ ''='' @ py_join '':'' (map build_port port_list)) # build_portmap_entries rest)"

definition build_portmap_annotation :: "port_map_t \<Rightarrow> string" where
  "build_portmap_annotation pm = py_join '';'' (build_portmap_entries (sorted_list_of_fmap pm))"

definition read_port :: "string \<Rightarrow> error + (int \<times> string)" where
  "read_port port =
     (case py_split CHR '','' port of
        [mod_id, port_name] \<Rightarrow>
          (case py_int mod_id of Inl e \<Rightarrow> Inl e | Inr m \<Rightarrow> Inr (m, port_name))
      | _ \<Rightarrow> Inl ValueError)"

definition read_mapping :: "string \<Rightarrow> error + (string \<times> (int \<times> string) list)" where
  "read_mapping mapping =
     (case py_split CHR ''='' mapping of
        [param, ports] \<Rightarrow>
          if ports = [] then Inr (param, [])
          else (case map_err read_port (py_split CHR '':'' ports) of
                  Inl e \<Rightarrow> Inl e
                | Inr portlist \<Rightarrow> Inr (param, portlist))
      | _ \<Rightarrow> Inl ValueError)"

fun read_mappings :: "string list \<Rightarrow> port_map_t \<Rightarrow> error + port_map_t" where
  "read_mappings [] pm = Inr pm"
| "read_mappings (mapping # rest) pm =
     (case read_mapping mapping of
        Inl e \<Rightarrow> Inl e
      | Inr (param, portlist) \<Rightarrow> read_mappings rest (fmupd param portlist pm))"

definition read_portmap_annotation :: "string \<Rightarrow> error + port_map_t option" where
  "read_portmap_annotation text =
     (case read_mappings (py_split CHR '';'' text) fmempty of
        Inr pm \<Rightarrow> Inr (Some pm)
      | Inl e \<Rightarrow> if e \<in> {ValueError, TypeError} then Inr None else Inl e)"

subsection \<open>The document and the store\<close>

text \<open>
  The document is \<^verbatim>\<open>controller.vistrail\<close>, an object of the host application.
  The store uses its list of action annotations, \<^verbatim>\<open>set_action_annotation\<close>,
  \<^verbatim>\<open>actionMap[version].prevId\<close>, \<^verbatim>\<open>getPipeline(version)\<close> with the
  dictionaries \<^verbatim>\<open>modules\<close> and \<^verbatim>\<open>connections\<close> (only their keys are
  read, with \<^verbatim>\<open>has_key\<close>) and the tag map.
\<close>

record Annotation =
  action_id :: int
  an_key :: string
  an_value :: string

record Pipeline =
  modules :: "int set"
  connections :: "int set"

record Vistrail =
  action_annotations :: "Annotation list"
  actionMap :: "(int, int) fmap"
  getPipeline :: "int \<Rightarrow> Pipeline"
  tagMap :: "(int, string) fmap"

text \<open>
  Modelled from the spec: \<^verbatim>\<open>set_action_annotation(version, key, value)\<close> of the
  host's document, which is not part of the sources. The spec: the graph store gets and
  sets a string annotation by (version id, key); the store passes \<^verbatim>\<open>None\<close> to
  remove one.
\<close>

definition set_action_annotation :: "int \<Rightarrow> string \<Rightarrow> string option \<Rightarrow> Vistrail \<Rightarrow> Vistrail" where
  "set_action_annotation v k val doc =
     doc\<lparr>action_annotations :=
           filter (\<lambda>an. \<not> (action_id an = v \<and> an_key an = k)) (action_annotations doc)
           @ (case val of
                None \<Rightarrow> []
              | Some text \<Rightarrow> [\<lparr>action_id = v, an_key = k, an_value = text\<rparr>])\<rparr>"

definition get_action_annotation :: "Vistrail \<Rightarrow> int \<Rightarrow> string \<Rightarrow> string option" where
  "get_action_annotation doc v k =
     map_option an_value (find (\<lambda>an. action_id an = v \<and> an_key an = k) (action_annotations doc))"

definition RECIPE_KEY :: string where
  "RECIPE_KEY = ''dat-recipe''"

definition PORTMAP_KEY :: string where
  "PORTMAP_KEY = ''dat-ports''"

text \<open>A cell is \<^verbatim>\<open>CellInformation(tab, row, col)\<close> of the store's one tab.\<close>

type_synonym cell = "int \<times> int"

record VistrailData =
  vistrail :: Vistrail
  variables :: "(string, Variable) fmap"
  cell_to_version :: "(cell, int) fmap"
  version_to_pipeline :: "(int, PipelineInformation) fmap"
  cell_to_pipeline :: "(cell, PipelineInformation) fmap"
  failed_infer_calls :: "int set"
  warnings :: "string list"

text \<open>\<^verbatim>\<open>warnings.warn(message)\<close>: the store keeps the messages in order.\<close>

definition warn :: "string \<Rightarrow> VistrailData \<Rightarrow> VistrailData" where
  "warn msg s = s\<lparr>warnings := warnings s @ [msg]\<rparr>"

definition annotate :: "int \<Rightarrow> string \<Rightarrow> string option \<Rightarrow> VistrailData \<Rightarrow> VistrailData" where
  "annotate v k val s = s\<lparr>vistrail := set_action_annotation v k val (vistrail s)\<rparr>"

subsection \<open>\<^verbatim>\<open>VistrailData.__init__\<close>\<close>

text \<open>
  The variables are loaded from the tags \<^verbatim>\<open>dat-var-<name>\<close> when some version is
  tagged \<^verbatim>\<open>dat-vars\<close>. \<^verbatim>\<open>Variable.read_type\<close> is not part of the sources: it
  is the parameter \<open>read_type\<close>. The notifications that \<^verbatim>\<open>_add_variable\<close> and
  \<^verbatim>\<open>_remove_variable\<close> send go to the host application and leave the store as it is.
\<close>

definition startswith :: "string \<Rightarrow> string \<Rightarrow> bool" where
  "startswith s p \<longleftrightarrow> take (length p) s = p"

fun load_variables ::
  "(Pipeline \<Rightarrow> string option) \<Rightarrow> (int \<times> string) list \<Rightarrow> VistrailData \<Rightarrow> VistrailData" where
  "load_variables read_type [] s = s"
| "load_variables read_type ((v, tag) # rest) s =
     (if startswith tag ''dat-var-'' then
        (case read_type (getPipeline (vistrail s) v) of
           None \<Rightarrow> load_variables read_type rest
                     (warn ''Found invalid DAT variable pipeline, ignored'' s)
         | Some ty \<Rightarrow> load_variables read_type rest
                     (s\<lparr>variables := fmupd (drop 8 tag) \<lparr>var_name = drop 8 tag, var_type = ty\<rparr>
                                       (variables s)\<rparr>))
      else load_variables read_type rest s)"

text \<open>The first loop over the annotations: the recipes.\<close>

fun load_recipes ::
  "(string \<Rightarrow> string \<Rightarrow> Plot option) \<Rightarrow> Annotation list \<Rightarrow> VistrailData \<Rightarrow> error + VistrailData" where
  "load_recipes get_plot [] s = Inr s"
| "load_recipes get_plot (an # rest) s =
     (if an_key an = RECIPE_KEY then
        (case read_recipe_annotation get_plot (variables s) (an_value an) of
           Inl e \<Rightarrow> Inl e
         | Inr None \<Rightarrow> load_recipes get_plot rest s
         | Inr (Some (r, cm)) \<Rightarrow>
             load_recipes get_plot rest
               (s\<lparr>version_to_pipeline :=
                    fmupd (action_id an)
                      \<lparr>version = action_id an, recipe = r, conn_map = cm, port_map = None\<rparr>
                      (version_to_pipeline s)\<rparr>))
      else load_recipes get_plot rest s)"

text \<open>
  \<^verbatim>\<open>PipelineInformation\<close> defines neither \<^verbatim>\<open>__nonzero__\<close> nor \<^verbatim>\<open>__len__\<close>:
  an instance is true, so \<^verbatim>\<open>not pipeline\<close> is false for every stored record.
\<close>

definition PipelineInformation_truth :: "PipelineInformation \<Rightarrow> bool" where
  "PipelineInformation_truth p = True"

text \<open>
  The second loop: the port maps. \<^verbatim>\<open>self._version_to_pipeline[an.action_id]\<close> is a
  subscript: it raises KeyError when the version has no record.
\<close>

fun load_portmaps :: "Annotation list \<Rightarrow> VistrailData \<Rightarrow> error + VistrailData" where
  "load_portmaps [] s = Inr s"
| "load_portmaps (an # rest) s =
     (if an_key an = PORTMAP_KEY then
        (case fmlookup (version_to_pipeline s) (action_id an) of
           None \<Rightarrow> Inl KeyError
         | Some pipeline \<Rightarrow>
             if \<not> PipelineInformation_truth pipeline then
               load_portmaps rest
                 (annotate (action_id an) (an_key an) None
                    (warn ''Found a DAT port map annotation with no associated recipe -- removing'' s))
             else
               (case read_portmap_annotation (an_value an) of
                  Inl e \<Rightarrow> Inl e
                | Inr None \<Rightarrow> load_portmaps rest s
                | Inr (Some pm) \<Rightarrow>
                    load_portmaps rest
                      (s\<lparr>version_to_pipeline :=
                           fmupd (action_id an) (pipeline\<lparr>port_map := Some pm\<rparr>)
                             (version_to_pipeline s)\<rparr>)))
      else load_portmaps rest s)"

definition has_tag_str :: "Vistrail \<Rightarrow> string \<Rightarrow> bool" where
  "has_tag_str doc tag \<longleftrightarrow> list_ex (\<lambda>(v, t). t = tag) (sorted_list_of_fmap (tagMap doc))"

definition VistrailData_init ::
  "(string \<Rightarrow> string \<Rightarrow> Plot option) \<Rightarrow> (Pipeline \<Rightarrow> string option) \<Rightarrow> Vistrail \<Rightarrow>
     error + VistrailData" where
  "VistrailData_init get_plot read_type doc =
     (let s0 = \<lparr>vistrail = doc, variables = fmempty, cell_to_version = fmempty,
                version_to_pipeline = fmempty, cell_to_pipeline = fmempty,
                failed_infer_calls = {}, warnings = []\<rparr>;
          s1 = (if has_tag_str doc ''dat-vars''
                then load_variables read_type (sorted_list_of_fmap (tagMap doc)) s0 else s0)
      in case load_recipes get_plot (action_annotations doc) s1 of
           Inl e \<Rightarrow> Inl e
         | Inr s2 \<Rightarrow> load_portmaps (action_annotations doc) s2)"

subsection \<open>\<^verbatim>\<open>created_pipeline\<close>\<close>

text \<open>
  \<^verbatim>\<open>PipelineInformation\<close> defines no \<^verbatim>\<open>__eq__\<close>, so \<^verbatim>\<open>p == pipeline\<close>
  compares identities. Records are values: whether the argument is the very object the
  store holds is the parameter \<open>same\<close>, and the stored object then has the argument's
  fields. The three dictionaries are written before the annotations are built, and the
  arguments of \<^verbatim>\<open>set_action_annotation\<close> are evaluated before the call: an
  exception of an encoder leaves the dictionaries written. \<^verbatim>\<open>port_map\<close> is
  \<^verbatim>\<open>None\<close> for a record loaded without a port map annotation, and
  \<^verbatim>\<open>None.iteritems\<close> raises AttributeError.
\<close>

definition register_pipeline ::
  "cell \<Rightarrow> PipelineInformation \<Rightarrow> VistrailData \<Rightarrow> (error + unit) \<times> VistrailData" where
  "register_pipeline cellInfo pipeline s =
     (let s1 = s\<lparr>cell_to_version := fmupd cellInfo (version pipeline) (cell_to_version s),
                  version_to_pipeline := fmupd (version pipeline) pipeline (version_to_pipeline s),
                  cell_to_pipeline := fmupd cellInfo pipeline (cell_to_pipeline s)\<rparr>
      in case build_recipe_annotation (recipe pipeline) (conn_map pipeline) of
           Inl e \<Rightarrow> (Inl e, s1)
         | Inr text \<Rightarrow>
             (let s2 = annotate (version pipeline) RECIPE_KEY (Some text) s1
              in case port_map pipeline of
                   None \<Rightarrow> (Inl AttributeError, s2)
                 | Some pm \<Rightarrow>
                     (Inr (), annotate (version pipeline) PORTMAP_KEY
                                (Some (build_portmap_annotation pm)) s2)))"

definition created_pipeline ::
  "bool \<Rightarrow> cell \<Rightarrow> PipelineInformation \<Rightarrow> VistrailData \<Rightarrow> (error + unit) \<times> VistrailData" where
  "created_pipeline same cellInfo pipeline s =
     (case fmlookup (version_to_pipeline s) (version pipeline) of
        Some p \<Rightarrow>
          if same \<and> p = pipeline then (Inr (), s)
          else register_pipeline cellInfo pipeline
                 (warn ''A new pipeline was created with a previously known version! replacing...'' s)
      | None \<Rightarrow> register_pipeline cellInfo pipeline s)"

subsection \<open>\<^verbatim>\<open>_infer_pipelineinfo\<close> and \<^verbatim>\<open>get_pipeline\<close>\<close>

text \<open>The check that the plot is still there: every module of the port map exists.\<close>

definition ports_survive :: "int set \<Rightarrow> port_map_t \<Rightarrow> bool" where
  "ports_survive mods pm =
     list_all (\<lambda>(name, port_list). list_all (\<lambda>(mod_id, portname). mod_id \<in> mods) port_list)
       (sorted_list_of_fmap pm)"

text \<open>
  The inner loop over \<^verbatim>\<open>izip(parameter_list, conn_list)\<close> with the two lists it
  appends to.
\<close>

fun filter_values ::
  "int set \<Rightarrow> RecipeParameterValue list \<Rightarrow> int list list \<Rightarrow>
     RecipeParameterValue list \<Rightarrow> int list list \<Rightarrow> RecipeParameterValue list \<times> int list list" where
  "filter_values conns_v (parameter # ps) (conns # cs) new_parameter_list new_conn_list =
     (if list_all (\<lambda>conn_id. conn_id \<in> conns_v) conns
      then filter_values conns_v ps cs (new_parameter_list @ [parameter]) (new_conn_list @ [conns])
      else filter_values conns_v ps cs new_parameter_list new_conn_list)"
| "filter_values conns_v _ _ new_parameter_list new_conn_list =
     (new_parameter_list, new_conn_list)"

text \<open>
  The loop over the parameters of the parent's recipe.
  \<^verbatim>\<open>parentInfo.conn_map[name]\<close> raises KeyError for a name without connections.
\<close>

fun filter_parameters ::
  "int set \<Rightarrow> conn_map_t \<Rightarrow> (string \<times> RecipeParameterValue list) list \<Rightarrow>
     parameters_t \<Rightarrow> conn_map_t \<Rightarrow> error + (parameters_t \<times> conn_map_t)" where
  "filter_parameters conns_v cm [] new_parameters new_conn_map = Inr (new_parameters, new_conn_map)"
| "filter_parameters conns_v cm ((name, parameter_list) # rest) new_parameters new_conn_map =
     (case fmlookup cm name of
        None \<Rightarrow> Inl KeyError
      | Some conn_list \<Rightarrow>
          (case filter_values conns_v parameter_list conn_list [] [] of
             (new_parameter_list, new_conn_list) \<Rightarrow>
               filter_parameters conns_v cm rest
                 (fmupd name new_parameter_list new_parameters)
                 (fmupd name new_conn_list new_conn_map)))"

text \<open>\<^verbatim>\<open>fail()\<close>: the version joins the failure memo and the result is \<^verbatim>\<open>None\<close>.\<close>

definition fail :: "int \<Rightarrow> VistrailData \<Rightarrow> (error + PipelineInformation option) \<times> VistrailData" where
  "fail v s = (Inr None, s\<lparr>failed_infer_calls := insert v (failed_infer_calls s)\<rparr>)"

text \<open>
  What \<^verbatim>\<open>_infer_pipelineinfo\<close> does once the parent's record is known: the checks
  against the structure of the version, the new record, \<^verbatim>\<open>created_pipeline\<close>.
\<close>

definition project_pipelineinfo ::
  "int \<Rightarrow> cell \<Rightarrow> PipelineInformation \<Rightarrow> VistrailData \<Rightarrow>
     (error + PipelineInformation option) \<times> VistrailData" where
  "project_pipelineinfo v cellInfo parentInfo s =
     (let pipeline = getPipeline (vistrail s) v
      in case port_map parentInfo of
           None \<Rightarrow> (Inl AttributeError, s)
         | Some pm \<Rightarrow>
             if \<not> ports_survive (modules pipeline) pm then fail v s
             else (case filter_parameters (connections pipeline) (conn_map parentInfo)
                          (sorted_list_of_fmap (parameters (recipe parentInfo))) fmempty fmempty of
                     Inl e \<Rightarrow> (Inl e, s)
                   | Inr (new_parameters, new_conn_map) \<Rightarrow>
                       (let pipelineInfo =
                              \<lparr>version = v,
                               recipe = \<lparr>plot = plot (recipe parentInfo), parameters = new_parameters\<rparr>,
                               conn_map = new_conn_map,
                               port_map = port_map parentInfo\<rparr>
                        in case created_pipeline False cellInfo pipelineInfo s of
                             (Inl e, s') \<Rightarrow> (Inl e, s')
                           | (Inr u, s') \<Rightarrow> (Inr (Some pipelineInfo), s'))))"

text \<open>
  \<^verbatim>\<open>get_pipeline\<close> on a version and \<^verbatim>\<open>_infer_pipelineinfo\<close> call each other
  along the parent pointers \<^verbatim>\<open>actionMap[version].prevId\<close>. The first argument
  bounds the depth of that recursion: the interpreter raises RuntimeError (maximum
  recursion depth exceeded) when a call would go deeper.
\<close>

fun get_pipeline_version ::
  "nat \<Rightarrow> int \<Rightarrow> cell option \<Rightarrow> VistrailData \<Rightarrow>
     (error + PipelineInformation option) \<times> VistrailData"
and infer_pipelineinfo ::
  "nat \<Rightarrow> int \<Rightarrow> cell \<Rightarrow> VistrailData \<Rightarrow>
     (error + PipelineInformation option) \<times> VistrailData" where
  "get_pipeline_version depth v infer_for_cell s =
     (case fmlookup (version_to_pipeline s) v of
        Some pipelineInfo \<Rightarrow> (Inr (Some pipelineInfo), s)
      | None \<Rightarrow>
          (case infer_for_cell of
             None \<Rightarrow> (Inr None, s)
           | Some cellInfo \<Rightarrow> infer_pipelineinfo depth v cellInfo s))"
| "infer_pipelineinfo depth v cellInfo s =
     (if v \<in> failed_infer_calls s then (Inr None, s)
      else (case fmlookup (actionMap (vistrail s)) v of
              None \<Rightarrow> fail v s
            | Some parentId \<Rightarrow>
                (case depth of
                   0 \<Rightarrow> (Inl RuntimeError, s)
                 | Suc d \<Rightarrow>
                     (case get_pipeline_version d parentId (Some cellInfo) s of
                        (Inl e, s') \<Rightarrow> (Inl e, s')
                      | (Inr None, s') \<Rightarrow> fail v s'
                      | (Inr (Some parentInfo), s') \<Rightarrow>
                          project_pipelineinfo v cellInfo parentInfo s'))))"

text \<open>
  \<^verbatim>\<open>_infer_pipelineinfo\<close> from the port check to the end of the loop on the
  parameters, once the parent's record is known: \<open>None\<close> where it returns by
  \<^verbatim>\<open>fail()\<close>, else the dictionaries \<^verbatim>\<open>new_parameters\<close> and
  \<^verbatim>\<open>new_conn_map\<close>.
\<close>

definition project_fields ::
  "int \<Rightarrow> PipelineInformation \<Rightarrow> VistrailData \<Rightarrow> error + (parameters_t \<times> conn_map_t) option" where
  "project_fields v parentInfo s =
     (let pipeline = getPipeline (vistrail s) v
      in case port_map parentInfo of
           None \<Rightarrow> Inl AttributeError
         | Some pm \<Rightarrow>
             if \<not> ports_survive (modules pipeline) pm then Inr None
             else (case filter_parameters (connections pipeline) (conn_map parentInfo)
                          (sorted_list_of_fmap (parameters (recipe parentInfo))) fmempty fmempty of
                     Inl e \<Rightarrow> Inl e
                   | Inr (new_parameters, new_conn_map) \<Rightarrow> Inr (Some (new_parameters, new_conn_map))))"

text \<open>
  \<^verbatim>\<open>_infer_pipelineinfo\<close> up to the statement
  \<^verbatim>\<open>new_recipe = DATRecipe(parentInfo.recipe.plot, new_parameters)\<close>: the result is
  \<open>None\<close> where the method has returned \<^verbatim>\<open>None\<close>, else the values from which
  the new objects are built, which are \<^verbatim>\<open>parentInfo.recipe.plot\<close>,
  \<^verbatim>\<open>new_parameters\<close>, \<^verbatim>\<open>new_conn_map\<close> and \<^verbatim>\<open>parentInfo.port_map\<close>.
\<close>

definition infer_fields ::
  "nat \<Rightarrow> int \<Rightarrow> cell \<Rightarrow> VistrailData \<Rightarrow>
     (error + (Plot \<times> parameters_t \<times> conn_map_t \<times> port_map_t option) option) \<times> VistrailData" where
  "infer_fields depth v cellInfo s =
     (if v \<in> failed_infer_calls s then (Inr None, s)
      else (case fmlookup (actionMap (vistrail s)) v of
              None \<Rightarrow> (Inr None, snd (fail v s))
            | Some parentId \<Rightarrow>
                (case depth of
                   0 \<Rightarrow> (Inl RuntimeError, s)
                 | Suc d \<Rightarrow>
                     (case get_pipeline_version d parentId (Some cellInfo) s of
                        (Inl e, s') \<Rightarrow> (Inl e, s')
                      | (Inr None, s') \<Rightarrow> (Inr None, snd (fail v s'))
                      | (Inr (Some parentInfo), s') \<Rightarrow>
                          (case project_fields v parentInfo s' of
                             Inl e \<Rightarrow> (Inl e, s')
                           | Inr None \<Rightarrow> (Inr None, snd (fail v s'))
                           | Inr (Some (new_parameters, new_conn_map)) \<Rightarrow>
                               (Inr (Some (plot (recipe parentInfo), new_parameters, new_conn_map,
                                           port_map parentInfo)), s'))))))"

text \<open>
  \<^verbatim>\<open>get_pipeline(param, infer_for_cell)\<close>: \<^verbatim>\<open>param\<close> is a version (an
  \<^verbatim>\<open>int\<close> or \<^verbatim>\<open>long\<close>) or a cell.
\<close>

datatype pipeline_key = Version int | Cell cell

definition get_pipeline ::
  "nat \<Rightarrow> pipeline_key \<Rightarrow> cell option \<Rightarrow> VistrailData \<Rightarrow>
     (error + PipelineInformation option) \<times> VistrailData" where
  "get_pipeline depth param infer_for_cell s =
     (case param of
        Version v \<Rightarrow> get_pipeline_version depth v infer_for_cell s
      | Cell c \<Rightarrow> (Inr (fmlookup (cell_to_pipeline s) c), s))"

subsection \<open>The variables\<close>

definition uses_variable :: "string \<Rightarrow> PipelineInformation \<Rightarrow> bool" where
  "uses_variable varname pipeline =
     list_ex (\<lambda>(name, p_values).
                list_ex (\<lambda>p. is_VARIABLE p \<and> var_name (rpv_variable p) = varname) p_values)
       (sorted_list_of_fmap (parameters (recipe pipeline)))"

text \<open>The loop \<^verbatim>\<open>for version in to_remove\<close>.\<close>

fun remove_versions :: "int list \<Rightarrow> VistrailData \<Rightarrow> (error + unit) \<times> VistrailData" where
  "remove_versions [] s = (Inr (), s)"
| "remove_versions (v # vs) s =
     (case fmlookup (version_to_pipeline s) v of
        None \<Rightarrow> (Inl KeyError, s)
      | Some p \<Rightarrow>
          remove_versions vs
            (annotate v PORTMAP_KEY None
               (annotate v RECIPE_KEY None
                  (s\<lparr>version_to_pipeline := fmdrop v (version_to_pipeline s)\<rparr>))))"

text \<open>The loop \<^verbatim>\<open>for cellInfo in cell_to_remove\<close>.\<close>

fun remove_cells :: "cell list \<Rightarrow> VistrailData \<Rightarrow> (error + unit) \<times> VistrailData" where
  "remove_cells [] s = (Inr (), s)"
| "remove_cells (c # cs) s =
     (case fmlookup (cell_to_version s) c of
        None \<Rightarrow> (Inl KeyError, s)
      | Some v \<Rightarrow>
          (let s1 = s\<lparr>cell_to_version := fmdrop c (cell_to_version s)\<rparr>
           in case fmlookup (cell_to_pipeline s1) c of
                None \<Rightarrow> (Inl KeyError, s1)
              | Some p \<Rightarrow> remove_cells cs (s1\<lparr>cell_to_pipeline := fmdrop c (cell_to_pipeline s1)\<rparr>)))"

text \<open>\<^verbatim>\<open>_remove_variable(varname, renamed_to)\<close>.\<close>

definition remove_variable_mappings ::
  "string \<Rightarrow> string option \<Rightarrow> VistrailData \<Rightarrow> (error + unit) \<times> VistrailData" where
  "remove_variable_mappings varname renamed_to s =
     (case renamed_to of
        Some n \<Rightarrow> (Inr (), s)
      | None \<Rightarrow>
          (let to_remove =
                 remdups (map (\<lambda>(k, pipeline). version pipeline)
                            (filter (\<lambda>(k, pipeline). uses_variable varname pipeline)
                               (sorted_list_of_fmap (version_to_pipeline s))));
               s1 = (if to_remove \<noteq> [] then warn ''Variable was used in pipelines!'' s else s)
           in case remove_versions to_remove s1 of
                (Inl e, s2) \<Rightarrow> (Inl e, s2)
              | (Inr u, s2) \<Rightarrow>
                  remove_cells
                    (map fst (filter (\<lambda>(cellInfo, v). v \<in> set to_remove)
                                (sorted_list_of_fmap (cell_to_version s2))))
                    s2))"

text \<open>
  \<^verbatim>\<open>remove_variable(varname)\<close>. \<^verbatim>\<open>self._variables.pop(varname)\<close> raises KeyError
  for an unknown name; \<^verbatim>\<open>variable.remove()\<close> acts on the host's document.
\<close>

definition remove_variable :: "string \<Rightarrow> VistrailData \<Rightarrow> (error + unit) \<times> VistrailData" where
  "remove_variable varname s =
     (case remove_variable_mappings varname None s of
        (Inl e, s1) \<Rightarrow> (Inl e, s1)
      | (Inr u, s1) \<Rightarrow>
          (case fmlookup (variables s1) varname of
             None \<Rightarrow> (Inl KeyError, s1)
           | Some variable \<Rightarrow> (Inr (), s1\<lparr>variables := fmdrop varname (variables s1)\<rparr>)))"

text \<open>
  \<^verbatim>\<open>new_variable(varname, variable)\<close>; \<^verbatim>\<open>variable.perform_operations\<close>, which is
  not part of the sources, returns the variable that is stored.
\<close>

definition new_variable :: "string \<Rightarrow> Variable \<Rightarrow> VistrailData \<Rightarrow> (error + unit) \<times> VistrailData" where
  "new_variable varname variable s =
     (case fmlookup (variables s) varname of
        Some v \<Rightarrow> (Inl ValueError, s)
      | None \<Rightarrow> (Inr (), s\<lparr>variables := fmupd varname variable (variables s)\<rparr>))"

text \<open>
  Modelled from the spec: \<^verbatim>\<open>variable.rename(new_varname)\<close>, which is not part of the
  sources. The recipes hold the variable object itself, so after the renaming every
  value bound to it carries the new name; the spec: renaming re-encodes every Pipeline
  Record referencing it so that decoding afterward resolves to the new name.
\<close>

definition rename_in_value :: "Variable \<Rightarrow> string \<Rightarrow> RecipeParameterValue \<Rightarrow> RecipeParameterValue" where
  "rename_in_value variable new_varname p =
     (case p of
        CONSTANT c \<Rightarrow> p
      | VARIABLE v tc \<Rightarrow> if v = variable then VARIABLE (v\<lparr>var_name := new_varname\<rparr>) tc else p)"

definition rename_in_pipeline :: "Variable \<Rightarrow> string \<Rightarrow> PipelineInformation \<Rightarrow> PipelineInformation" where
  "rename_in_pipeline variable new_varname pipeline =
     pipeline\<lparr>recipe :=
       (recipe pipeline)\<lparr>parameters :=
          fmmap (map (rename_in_value variable new_varname)) (parameters (recipe pipeline))\<rparr>\<rparr>"

text \<open>The loop of \<^verbatim>\<open>_add_variable(varname, renamed_from)\<close> over the records.\<close>

fun reannotate ::
  "string \<Rightarrow> (int \<times> PipelineInformation) list \<Rightarrow> VistrailData \<Rightarrow> (error + unit) \<times> VistrailData" where
  "reannotate varname [] s = (Inr (), s)"
| "reannotate varname ((k, pipeline) # rest) s =
     (if uses_variable varname pipeline then
        (case build_recipe_annotation (recipe pipeline) (conn_map pipeline) of
           Inl e \<Rightarrow> (Inl e, s)
         | Inr text \<Rightarrow> reannotate varname rest (annotate (version pipeline) RECIPE_KEY (Some text) s))
      else reannotate varname rest s)"

definition rename_variable :: "string \<Rightarrow> string \<Rightarrow> VistrailData \<Rightarrow> (error + unit) \<times> VistrailData" where
  "rename_variable old_varname new_varname s =
     (case remove_variable_mappings old_varname (Some new_varname) s of
        (Inl e, s1) \<Rightarrow> (Inl e, s1)
      | (Inr u, s1) \<Rightarrow>
          (case fmlookup (variables s1) old_varname of
             None \<Rightarrow> (Inl KeyError, s1)
           | Some variable \<Rightarrow>
               (let s2 = s1\<lparr>variables :=
                               fmupd new_varname (variable\<lparr>var_name := new_varname\<rparr>)
                                 (fmdrop old_varname (variables s1)),
                             version_to_pipeline :=
                               fmmap (rename_in_pipeline variable new_varname) (version_to_pipeline s1),
                             cell_to_pipeline :=
                               fmmap (rename_in_pipeline variable new_varname) (cell_to_pipeline s1)\<rparr>
                in reannotate new_varname (sorted_list_of_fmap (version_to_pipeline s2)) s2)))"

subsection \<open>\<^verbatim>\<open>_discover_cell_pipelines\<close>\<close>

text \<open>
  \<^verbatim>\<open>get_pipeline_location\<close> is not part of the sources: it is the parameter
  \<open>location\<close>, \<open>None\<close> where it raises ValueError. The first loop keeps, for every
  cell, the record with the latest version.
\<close>

fun discover_cells ::
  "(PipelineInformation \<Rightarrow> cell option) \<Rightarrow> (int \<times> PipelineInformation) list \<Rightarrow>
     (cell, PipelineInformation) fmap \<Rightarrow> (cell, PipelineInformation) fmap" where
  "discover_cells location [] cells = cells"
| "discover_cells location ((k, pipeline) # rest) cells =
     (case location pipeline of
        None \<Rightarrow> discover_cells location rest cells
      | Some c \<Rightarrow>
          (case fmlookup cells c of
             None \<Rightarrow> discover_cells location rest (fmupd c pipeline cells)
           | Some p \<Rightarrow>
               if version pipeline > version p
               then discover_cells location rest (fmupd c pipeline cells)
               else discover_cells location rest cells))"

fun assign_cells :: "(cell \<times> PipelineInformation) list \<Rightarrow> VistrailData \<Rightarrow> VistrailData" where
  "assign_cells [] s = s"
| "assign_cells ((c, pipeline) # rest) s =
     assign_cells rest
       (s\<lparr>cell_to_pipeline := fmupd c pipeline (cell_to_pipeline s),
          cell_to_version := fmupd c (version pipeline) (cell_to_version s)\<rparr>)"

definition discover_cell_pipelines ::
  "(PipelineInformation \<Rightarrow> cell option) \<Rightarrow> VistrailData \<Rightarrow> VistrailData" where
  "discover_cell_pipelines location s =
     assign_cells
       (sorted_list_of_fmap
          (discover_cells location (sorted_list_of_fmap (version_to_pipeline s)) fmempty))
       s"

subsection \<open>Legal recipes\<close>

text \<open>
  The spec's constraint on a recipe that is encoded: all values bound to one parameter
  share the same kind, all constant or all variable.
\<close>

definition kind_consistent :: "DATRecipe \<Rightarrow> bool" where
  "kind_consistent r =
     list_all (\<lambda>(param, vs). list_all is_CONSTANT vs \<or> list_all is_VARIABLE vs)
       (sorted_list_of_fmap (parameters r))"

subsection \<open>Well-formed annotations\<close>

text \<open>
  What the decoder takes for a well-formed annotation, stated on its text: the plot has
  two fields and is in the catalog, a segment has three fields and the tag \<^verbatim>\<open>c\<close> or
  \<^verbatim>\<open>v\<close>, a value has two fields, a variable item has one or two fields and names a
  variable of the store, and every edge id is an integer numeral.
\<close>

definition is_int_literal :: "string \<Rightarrow> bool" where
  "is_int_literal s = (\<not> isl (py_int s))"

definition wf_value :: "(string, Variable) fmap \<Rightarrow> string \<Rightarrow> string \<Rightarrow> bool" where
  "wf_value vars t val =
     (case py_split CHR '':'' val of
        [v0, v1] \<Rightarrow>
          (t = ''c'' \<or>
           (case py_split CHR '','' v0 of
              [n] \<Rightarrow> get_variable vars n \<noteq> None
            | [n, tc] \<Rightarrow> get_variable vars n \<noteq> None
            | _ \<Rightarrow> False))
          \<and> list_all is_int_literal (py_split CHR '','' v1)
      | _ \<Rightarrow> False)"

definition wf_segment :: "(string, Variable) fmap \<Rightarrow> string \<Rightarrow> bool" where
  "wf_segment vars segment =
     (case py_split CHR ''='' segment of
        [param, t, pvals] \<Rightarrow>
          (t = ''c'' \<or> t = ''v'') \<and> list_all (wf_value vars t) (py_split CHR ''|'' pvals)
      | _ \<Rightarrow> False)"

definition wf_annotation ::
  "(string \<Rightarrow> string \<Rightarrow> Plot option) \<Rightarrow> (string, Variable) fmap \<Rightarrow> string \<Rightarrow> bool" where
  "wf_annotation get_plot vars text =
     (case py_split CHR '';'' text of
        [] \<Rightarrow> False
      | plot_text # segments \<Rightarrow>
          (case py_split CHR '','' plot_text of
             [pkg, nm] \<Rightarrow> get_plot pkg nm \<noteq> None
           | _ \<Rightarrow> False)
          \<and> list_all (wf_segment vars) segments)"

definition segment_name :: "string \<Rightarrow> string" where
  "segment_name segment = hd (py_split CHR ''='' segment)"

text \<open>
  A parameter dictionary and a connection map with the same keys, where each parameter
  has at least one value and as many connection lists as values.
\<close>

definition aligned :: "parameters_t \<Rightarrow> conn_map_t \<Rightarrow> bool" where
  "aligned ps cm \<longleftrightarrow>
     fmdom cm = fmdom ps \<and>
     (\<forall>param plist. fmlookup ps param = Some plist \<longrightarrow>
        plist \<noteq> [] \<and> (\<exists>cplist. fmlookup cm param = Some cplist \<and> length cplist = length plist))"

text \<open>A plot catalog with the one plot \<^verbatim>\<open>pkgA.Scatter\<close>, for the examples.\<close>

definition catalog0 :: "string \<Rightarrow> string \<Rightarrow> Plot option" where
  "catalog0 pkg nm =
     (if pkg = ''pkgA'' \<and> nm = ''Scatter''
      then Some \<lparr>package_identifier = pkg, plot_name = nm\<rparr> else None)"

text \<open>
  A document with one annotation: a port map at version 12 and no recipe there.
\<close>

definition orphan_doc :: Vistrail where
  "orphan_doc =
     \<lparr>action_annotations = [\<lparr>action_id = 12, an_key = ''dat-ports'', an_value = ''x=3,input''\<rparr>],
      actionMap = fmempty,
      getPipeline = (\<lambda>v. \<lparr>modules = {}, connections = {}\<rparr>),
      tagMap = fmempty\<rparr>"

subsection \<open>Surviving values\<close>

declare get_pipeline_version.simps [simp del] infer_pipelineinfo.simps [simp del]


text \<open>
  What no operation on the recipes changes: the structure of the document (parent
  pointers, pipelines, tags) and the variables; the failure memo only grows.
\<close>

definition store_frame :: "VistrailData \<Rightarrow> VistrailData \<Rightarrow> bool" where
  "store_frame s s' \<longleftrightarrow>
     actionMap (vistrail s') = actionMap (vistrail s) \<and>
     getPipeline (vistrail s') = getPipeline (vistrail s) \<and>
     tagMap (vistrail s') = tagMap (vistrail s) \<and>
     variables s' = variables s \<and>
     failed_infer_calls s \<subseteq> failed_infer_calls s'"

text \<open>A store for the example of partial survival: version 13 on top of version 12.\<close>

definition var_A :: Variable where
  "var_A = \<lparr>var_name = ''A'', var_type = ''X''\<rparr>"

definition var_B :: Variable where
  "var_B = \<lparr>var_name = ''B'', var_type = ''X''\<rparr>"

definition parent_info :: PipelineInformation where
  "parent_info =
     \<lparr>version = 12,
      recipe = \<lparr>plot = \<lparr>package_identifier = ''pkgA'', plot_name = ''Scatter''\<rparr>,
                parameters = fmupd ''p'' [VARIABLE var_A None, VARIABLE var_B None] fmempty\<rparr>,
      conn_map = fmupd ''p'' [[1], [2]] fmempty,
      port_map = Some (fmupd ''p'' [(3, ''input'')] fmempty)\<rparr>"

definition partial_store :: VistrailData where
  "partial_store =
     \<lparr>vistrail = \<lparr>action_annotations = [],
                  actionMap = fmupd 13 12 fmempty,
                  getPipeline = (\<lambda>v. \<lparr>modules = {3}, connections = {1}\<rparr>),
                  tagMap = fmempty\<rparr>,
      variables = fmupd ''A'' var_A (fmupd ''B'' var_B fmempty),
      cell_to_version = fmempty,
      version_to_pipeline = fmupd 12 parent_info fmempty,
      cell_to_pipeline = fmempty,
      failed_infer_calls = {},
      warnings = []\<rparr>"

text \<open>A record for version 12 whose recipe binds two constants to one parameter.\<close>

definition two_constants_info :: PipelineInformation where
  "two_constants_info =
     \<lparr>version = 12,
      recipe = \<lparr>plot = \<lparr>package_identifier = ''pkgA'', plot_name = ''Scatter''\<rparr>,
                parameters = fmupd ''p'' [CONSTANT ''a'', CONSTANT ''b''] fmempty\<rparr>,
      conn_map = fmupd ''p'' [[1], [2]] fmempty,
      port_map = Some (fmupd ''p'' [(3, ''input'')] fmempty)\<rparr>"

text \<open>A record for version 12 with another recipe than \<open>parent_info\<close>, which encodes.\<close>

definition other_info :: PipelineInformation where
  "other_info =
     \<lparr>version = 12,
      recipe = \<lparr>plot = \<lparr>package_identifier = ''pkgA'', plot_name = ''Scatter''\<rparr>,
                parameters = fmupd ''p'' [CONSTANT ''a;b''] fmempty\<rparr>,
      conn_map = fmupd ''p'' [[1, 2]] fmempty,
      port_map = Some (fmupd ''p'' [(3, ''input'')] fmempty)\<rparr>"


text \<open>
  A store where version 13 failed before its parent was registered: inference for 13 is
  asked for while version 12 has no record, then the record of version 12 is created.
\<close>

definition fresh_store :: VistrailData where
  "fresh_store =
     \<lparr>vistrail = \<lparr>action_annotations = [],
                  actionMap = fmupd 13 12 fmempty,
                  getPipeline = (\<lambda>v. \<lparr>modules = {3}, connections = {1, 2}\<rparr>),
                  tagMap = fmempty\<rparr>,
      variables = fmupd ''A'' var_A (fmupd ''B'' var_B fmempty),
      cell_to_version = fmempty,
      version_to_pipeline = fmempty,
      cell_to_pipeline = fmempty,
      failed_infer_calls = {},
      warnings = []\<rparr>"



text \<open>The store made by loading the document of the spec's end-to-end example.\<close>

definition example_doc :: Vistrail where
  "example_doc =
     \<lparr>action_annotations =
        [\<lparr>action_id = 12, an_key = ''dat-recipe'', an_value = ''pkgA,Scatter;x=v=foo:7''\<rparr>,
         \<lparr>action_id = 12, an_key = ''dat-ports'', an_value = ''x=3,input''\<rparr>],
      actionMap = fmupd 13 12 (fmupd 12 5 fmempty),
      getPipeline = (\<lambda>v. \<lparr>modules = {3}, connections = {7}\<rparr>),
      tagMap = fmupd 5 ''dat-var-foo'' (fmupd 1 ''dat-vars'' fmempty)\<rparr>"

definition example_store :: VistrailData where
  "example_store = projr (VistrailData_init catalog0 (\<lambda>p. Some ''X'') example_doc)"

definition example_info :: PipelineInformation where
  "example_info =
     \<lparr>version = 12,
      recipe = \<lparr>plot = \<lparr>package_identifier = ''pkgA'', plot_name = ''Scatter''\<rparr>,
                parameters = fmupd ''x'' [VARIABLE \<lparr>var_name = ''foo'', var_type = ''X''\<rparr> None] fmempty\<rparr>,
      conn_map = fmupd ''x'' [[7]] fmempty,
      port_map = Some (fmupd ''x'' [(3, ''input'')] fmempty)\<rparr>"

text \<open>
  The invariant of the store. The first part is the one the spec states: the record of
  a cell has an entry in \<open>version_to_pipeline\<close> under its version. The others make it
  inductive: \<open>cell_to_version\<close> holds the version of the cell's record, the two cell
  dictionaries have the same keys, and a record is stored under its own version.
\<close>

definition store_inv :: "VistrailData \<Rightarrow> bool" where
  "store_inv s \<longleftrightarrow>
     (\<forall>c p. fmlookup (cell_to_pipeline s) c = Some p \<longrightarrow>
        version p |\<in>| fmdom (version_to_pipeline s) \<and>
        fmlookup (cell_to_version s) c = Some (version p)) \<and>
     fmdom (cell_to_version s) = fmdom (cell_to_pipeline s) \<and>
     (\<forall>k p. fmlookup (version_to_pipeline s) k = Some p \<longrightarrow> version p = k)"

text \<open>
  The states of a store: made by the constructor, then changed by the operations, whether
  they return or raise.
\<close>

inductive reachable :: "VistrailData \<Rightarrow> bool" where
  init: "VistrailData_init get_plot read_type doc = Inr s \<Longrightarrow> reachable s"
| discover: "reachable s \<Longrightarrow> reachable (discover_cell_pipelines location s)"
| created: "reachable s \<Longrightarrow> reachable (snd (created_pipeline same cellInfo pipeline s))"
| get: "reachable s \<Longrightarrow> reachable (snd (get_pipeline depth param infer_for_cell s))"
| new_var: "reachable s \<Longrightarrow> reachable (snd (new_variable varname variable s))"
| remove_var: "reachable s \<Longrightarrow> reachable (snd (remove_variable varname s))"
| rename_var: "reachable s \<Longrightarrow> reachable (snd (rename_variable old_varname new_varname s))"

subsection \<open>Sequences of operations\<close>

text \<open>
  A store after any number of operations on it, whether they returned or raised.
\<close>

inductive evolves :: "VistrailData \<Rightarrow> VistrailData \<Rightarrow> bool" where
  same: "evolves s s"
| discover: "evolves s s' \<Longrightarrow> evolves s (discover_cell_pipelines location s')"
| created: "evolves s s' \<Longrightarrow> evolves s (snd (created_pipeline same cellInfo pipeline s'))"
| get: "evolves s s' \<Longrightarrow> evolves s (snd (get_pipeline depth param infer_for_cell s'))"
| new_var: "evolves s s' \<Longrightarrow> evolves s (snd (new_variable varname variable s'))"
| remove_var: "evolves s s' \<Longrightarrow> evolves s (snd (remove_variable varname s'))"
| rename_var: "evolves s s' \<Longrightarrow> evolves s (snd (rename_variable old_varname new_varname s'))"

text \<open>A record for version 13, with the recipe of the record of version 12.\<close>

definition child_info :: PipelineInformation where
  "child_info = parent_info\<lparr>version := 13\<rparr>"

section \<open>Properties\<close>

subsection \<open>Dictionaries in key order\<close>

lemma set_sorted_list_of_fmap:
  "set (sorted_list_of_fmap m) = {(k, v). fmlookup m k = Some v}"
  by (auto simp: sorted_list_of_fmap_def fmlookup_dom_iff image_iff)

lemma map_fst_sorted_list_of_fmap:
  "map fst (sorted_list_of_fmap m) = sorted_list_of_fset (fmdom m)"
  by (simp add: sorted_list_of_fmap_def comp_def)

lemma sorted_fst_sorted_list_of_fmap: "sorted (map fst (sorted_list_of_fmap m))"
  by (simp add: map_fst_sorted_list_of_fmap sorted_list_of_fset.rep_eq)

lemma distinct_fst_sorted_list_of_fmap: "distinct (map fst (sorted_list_of_fmap m))"
  by (simp add: map_fst_sorted_list_of_fmap sorted_list_of_fset.rep_eq)

lemma sorted_list_of_fmap_unique:
  assumes "sorted (map fst xs)" and "distinct (map fst xs)"
    and "set xs = {(k, v). fmlookup m k = Some v}"
  shows "sorted_list_of_fmap m = xs"
proof (rule map_sorted_distinct_set_unique [where f = fst])
  show "inj_on fst (set (sorted_list_of_fmap m) \<union> set xs)"
    by (auto simp: inj_on_def set_sorted_list_of_fmap assms(3))
  show "set (sorted_list_of_fmap m) = set xs"
    by (simp add: set_sorted_list_of_fmap assms(3))
qed (simp_all add: assms sorted_fst_sorted_list_of_fmap distinct_fst_sorted_list_of_fmap)

lemma map_fst_insort_key:
  "map fst (insort_key fst x xs) = insort (fst x) (map fst xs)"
  by (induction xs) auto

lemma sorted_list_of_fmap_fmupd:
  "sorted_list_of_fmap (fmupd k v m) = insort_key fst (k, v) (sorted_list_of_fmap (fmdrop k m))"
proof (rule sorted_list_of_fmap_unique)
  show "sorted (map fst (insort_key fst (k, v) (sorted_list_of_fmap (fmdrop k m))))"
    by (simp add: sorted_insort_key sorted_fst_sorted_list_of_fmap)
  have "k \<notin> set (map fst (sorted_list_of_fmap (fmdrop k m)))"
    by (auto simp: set_sorted_list_of_fmap)
  then show "distinct (map fst (insort_key fst (k, v) (sorted_list_of_fmap (fmdrop k m))))"
    using distinct_fst_sorted_list_of_fmap [of "fmdrop k m"]
    unfolding map_fst_insort_key by (simp add: distinct_insort)
  show "set (insort_key fst (k, v) (sorted_list_of_fmap (fmdrop k m))) =
        {(k', v'). fmlookup (fmupd k v m) k' = Some v'}"
    by (auto simp: set_insort_key set_sorted_list_of_fmap split: if_splits)
qed

lemma sorted_list_of_fmap_empty: "sorted_list_of_fmap fmempty = []"
  by (simp add: sorted_list_of_fmap_def sorted_list_of_fset.rep_eq)

subsection \<open>Splitting and joining\<close>

lemma py_split_not_Nil: "py_split sep s \<noteq> []"
  by (induction s) (auto split: list.splits)

lemma py_split_no_sep: "sep \<notin> set s \<Longrightarrow> py_split sep s = [s]"
  by (induction s) auto

lemma py_split_append_sep:
  "sep \<notin> set w \<Longrightarrow> py_split sep (w @ sep # rest) = w # py_split sep rest"
  by (induction w) (auto simp: py_split_not_Nil split: list.splits)

lemma py_split_join:
  "ws \<noteq> [] \<Longrightarrow> \<forall>w\<in>set ws. sep \<notin> set w \<Longrightarrow> py_split sep (py_join [sep] ws) = ws"
  by (induction "[sep]" ws rule: py_join.induct) (auto simp: py_split_no_sep py_split_append_sep)

subsection \<open>The port map encoder and empty port lists\<close>

lemma build_portmap_entries_filter:
  "build_portmap_entries xs =
     map (\<lambda>(param, port_list). param @ ''='' @ py_join '':'' (map build_port port_list))
       (filter (\<lambda>(param, port_list). port_list \<noteq> []) xs)"
  by (induction xs rule: build_portmap_entries.induct) auto

text \<open>
  C8 as the spec states it: a parameter with an empty port list is encoded as
  \<^verbatim>\<open>name=\<close>. The encoder skips such a parameter: for the port map
  \<^verbatim>\<open>{'a': [(1, 'in')], 'p': []}\<close> the text is \<^verbatim>\<open>a=1,in\<close>, with no entry for
  \<^verbatim>\<open>p\<close>.
\<close>

theorem C8_counterexample:
  "build_portmap_annotation (fmap_of_list [(''a'', [(1, ''in'')]), (''p'', [])]) = ''a=1,in''"
  by code_simp

text \<open>
  C8, amended: \<^verbatim>\<open>_build_portmap_annotation\<close> omits a parameter whose port list is
  empty (the text is that of the port map without the parameter), and
  \<^verbatim>\<open>_read_portmap_annotation\<close> reads the entry \<^verbatim>\<open>name=\<close> as the parameter with an
  empty port list.
\<close>

theorem C8_empty_port_list_omitted:
  "build_portmap_annotation (fmupd p [] pm) = build_portmap_annotation (fmdrop p pm) \<and>
   (CHR '';'' \<notin> set p \<and> CHR ''='' \<notin> set p \<longrightarrow>
      read_portmap_annotation (p @ ''='') = Inr (Some (fmupd p [] fmempty)))"
proof
  show "build_portmap_annotation (fmupd p [] pm) = build_portmap_annotation (fmdrop p pm)"
    by (simp add: build_portmap_annotation_def build_portmap_entries_filter
        sorted_list_of_fmap_fmupd filter_insort_triv)
  show "CHR '';'' \<notin> set p \<and> CHR ''='' \<notin> set p \<longrightarrow>
      read_portmap_annotation (p @ ''='') = Inr (Some (fmupd p [] fmempty))"
    using py_split_append_sep [of "CHR ''=''" p "[]"]
    by (simp add: read_portmap_annotation_def py_split_no_sep read_mapping_def)
qed

theorem C8_witness:
  "build_portmap_annotation (fmupd ''p'' [] (fmupd ''a'' [(1, ''in'')] fmempty)) =
     build_portmap_annotation (fmdrop ''p'' (fmupd ''a'' [(1, ''in'')] fmempty)) \<and>
   read_portmap_annotation ''p='' = Inr (Some (fmupd ''p'' [] fmempty))"
  using C8_empty_port_list_omitted [of "''p''" "fmupd ''a'' [(1, ''in'')] fmempty"]
  by simp

subsection \<open>The recipe encoder and several constants\<close>

lemma build_params_ValueError:
  "\<forall>(p, vs)\<in>set xs. fmlookup cm p \<noteq> None \<Longrightarrow>
   build_params cm xs acc = Inl ValueError \<longleftrightarrow>
     (\<exists>(p, vs)\<in>set xs. vs \<noteq> [] \<and> is_CONSTANT (hd vs) \<and> length vs \<noteq> 1)"
proof (induction xs arbitrary: acc)
  case Nil
  then show ?case by simp
next
  case (Cons x xs)
  obtain p vs where x: "x = (p, vs)" by (cases x)
  from Cons.prems x obtain conns where c: "fmlookup cm p = Some conns" by auto
  have rest: "\<forall>(p, vs)\<in>set xs. fmlookup cm p \<noteq> None" using Cons.prems by simp
  show ?case
    using Cons.IH [OF rest] c
    by (cases vs) (auto simp: x build_param_def)
qed

lemma kind_consistent_lookup:
  "kind_consistent r \<Longrightarrow> fmlookup (parameters r) p = Some vs \<Longrightarrow>
   list_all is_CONSTANT vs \<or> list_all is_VARIABLE vs"
  unfolding kind_consistent_def list_all_iff
  by (auto simp: set_sorted_list_of_fmap)

text \<open>
  C10, for every recipe, does not hold. The guard reads the kind of the first value of a
  parameter only: a parameter whose values are a variable followed by two constants is
  encoded without an exception, and one whose values are a single constant followed by a
  variable raises ValueError. A parameter that has no entry in the connection map raises
  KeyError, and the loop never reaches the parameters after it.
\<close>

theorem C10_counterexample:
  "build_recipe_annotation
     \<lparr>plot = \<lparr>package_identifier = ''pkgA'', plot_name = ''Scatter''\<rparr>,
      parameters = fmupd ''x'' [VARIABLE \<lparr>var_name = ''A'', var_type = ''T''\<rparr> None,
                                CONSTANT ''a'', CONSTANT ''b''] fmempty\<rparr>
     (fmupd ''x'' [[1], [2], [3]] fmempty) = Inr ''pkgA,Scatter;x=v=A:1|a:2|b:3'' \<and>
   build_recipe_annotation
     \<lparr>plot = \<lparr>package_identifier = ''pkgA'', plot_name = ''Scatter''\<rparr>,
      parameters = fmupd ''x'' [CONSTANT ''a'', VARIABLE \<lparr>var_name = ''A'', var_type = ''T''\<rparr> None]
                     fmempty\<rparr>
     (fmupd ''x'' [[1], [2]] fmempty) = Inl ValueError \<and>
   build_recipe_annotation
     \<lparr>plot = \<lparr>package_identifier = ''pkgA'', plot_name = ''Scatter''\<rparr>,
      parameters = fmupd ''a'' [VARIABLE \<lparr>var_name = ''A'', var_type = ''T''\<rparr> None]
                     (fmupd ''b'' [CONSTANT ''a'', CONSTANT ''b''] fmempty)\<rparr>
     (fmupd ''b'' [[1], [2]] fmempty) = Inl KeyError"
  by code_simp

text \<open>
  C10, amended: for a recipe whose parameters are kind-consistent (the values of one
  parameter are all constants or all variables) and a connection map that has an entry
  for each of them, \<^verbatim>\<open>_build_recipe_annotation\<close> raises ValueError exactly when some
  parameter binds two or more constant values; a parameter bound to a single constant or
  to variables only never raises it.
\<close>

theorem C10_ValueError_iff:
  assumes "kind_consistent r" and "fmdom (parameters r) |\<subseteq>| fmdom cm"
  shows "build_recipe_annotation r cm = Inl ValueError \<longleftrightarrow>
         (\<exists>param vs. fmlookup (parameters r) param = Some vs \<and>
                      list_all is_CONSTANT vs \<and> 2 \<le> length vs)"
proof -
  have cov: "\<forall>(p, vs)\<in>set (sorted_list_of_fmap (parameters r)). fmlookup cm p \<noteq> None"
    using assms(2) by (auto simp: set_sorted_list_of_fmap fmlookup_dom_iff dest!: fmdomI)
  have "build_recipe_annotation r cm = Inl ValueError \<longleftrightarrow>
        (\<exists>p vs. fmlookup (parameters r) p = Some vs \<and> vs \<noteq> [] \<and> is_CONSTANT (hd vs) \<and> length vs \<noteq> 1)"
    unfolding build_recipe_annotation_def build_params_ValueError [OF cov]
    by (auto simp: set_sorted_list_of_fmap)
  also have "\<dots> \<longleftrightarrow> (\<exists>p vs. fmlookup (parameters r) p = Some vs \<and> list_all is_CONSTANT vs \<and> 2 \<le> length vs)"
  proof -
    have "vs \<noteq> [] \<and> is_CONSTANT (hd vs) \<and> length vs \<noteq> 1 \<longleftrightarrow> list_all is_CONSTANT vs \<and> 2 \<le> length vs"
      if "fmlookup (parameters r) p = Some vs" for p vs
      using kind_consistent_lookup [OF assms(1) that]
      by (cases vs) (auto simp: Suc_le_eq)
    then show ?thesis by blast
  qed
  finally show ?thesis .
qed

theorem C10_witness:
  "kind_consistent \<lparr>plot = \<lparr>package_identifier = ''pkgA'', plot_name = ''Scatter''\<rparr>,
       parameters = fmupd ''x'' [CONSTANT ''a'', CONSTANT ''b''] fmempty\<rparr> \<and>
   fmdom (fmupd ''x'' [CONSTANT ''a'', CONSTANT ''b''] fmempty) |\<subseteq>| fmdom (fmupd ''x'' [[1], [2]] fmempty) \<and>
   build_recipe_annotation
     \<lparr>plot = \<lparr>package_identifier = ''pkgA'', plot_name = ''Scatter''\<rparr>,
       parameters = fmupd ''x'' [CONSTANT ''a'', CONSTANT ''b''] fmempty\<rparr>
     (fmupd ''x'' [[1], [2]] fmempty) = Inl ValueError"
proof -
  let ?r = "\<lparr>plot = \<lparr>package_identifier = ''pkgA'', plot_name = ''Scatter''\<rparr>,
       parameters = fmupd ''x'' [CONSTANT ''a'', CONSTANT ''b''] fmempty\<rparr>"
  let ?cm = "fmupd ''x'' [[1::int], [2]] fmempty"
  have k: "kind_consistent ?r"
    by (simp add: kind_consistent_def sorted_list_of_fmap_fmupd sorted_list_of_fmap_empty)
  have d: "fmdom (parameters ?r) |\<subseteq>| fmdom ?cm" by simp
  have "\<exists>param vs. fmlookup (parameters ?r) param = Some vs \<and> list_all is_CONSTANT vs \<and> 2 \<le> length vs"
    by (rule exI [of _ "''x''"]) simp
  with C10_ValueError_iff [OF k d] have "build_recipe_annotation ?r ?cm = Inl ValueError" by blast
  with k d show ?thesis by simp
qed

subsection \<open>The recipe decoder\<close>

lemma map_err_Inl: "map_err f xs = Inl e \<Longrightarrow> \<exists>x\<in>set xs. f x = Inl e"
  by (induction xs) (auto split: sum.splits)

lemma map_err_Inr_iff:
  "(\<exists>ys. map_err f xs = Inr ys) \<longleftrightarrow> list_all (\<lambda>x. \<not> isl (f x)) xs"
  by (induction xs) (auto split: sum.splits simp: isl_def)

lemma map_err_Inr_length: "map_err f xs = Inr ys \<Longrightarrow> length ys = length xs"
  by (induction xs arbitrary: ys) (auto split: sum.splits)

lemma py_int_Inl: "py_int s = Inl e \<Longrightarrow> e = ValueError"
  by (auto simp: py_int_def Let_def split: if_splits)

lemma read_connlist_Inl: "read_connlist s = Inl e \<Longrightarrow> e = ValueError"
  by (auto simp: read_connlist_def dest!: map_err_Inl py_int_Inl)

lemma RecipeParameterValue_init_Inl:
  "RecipeParameterValue_init v c t = Inl e \<Longrightarrow> e = ValueError"
  by (auto simp: RecipeParameterValue_init_def split: option.splits if_splits)

lemma read_value_Inl: "read_value vars t val = Inl e \<Longrightarrow> e = ValueError"
  unfolding read_value_def
  by (auto split: list.splits sum.splits if_splits
      dest: RecipeParameterValue_init_Inl read_connlist_Inl)

lemma read_param_Inl: "read_param vars seg = Inl e \<Longrightarrow> e = ValueError"
  unfolding read_param_def
  by (auto split: list.splits sum.splits if_splits dest!: map_err_Inl read_value_Inl)

lemma read_params_Inl: "read_params vars segs ps cm = Inl e \<Longrightarrow> e = ValueError"
  by (induction segs arbitrary: ps cm) (auto split: sum.splits dest: read_param_Inl)

lemma read_recipe_fields_Inl:
  "read_recipe_fields get_plot vars text = Inl e \<Longrightarrow> e = KeyError \<or> e = ValueError"
  unfolding read_recipe_fields_def
  by (auto split: list.splits option.splits sum.splits simp: py_split_not_Nil
      dest: read_params_Inl)

lemma read_recipe_body_Inl:
  "read_recipe_body get_plot vars text = Inl e \<Longrightarrow> e = KeyError \<or> e = ValueError"
  unfolding read_recipe_body_def
  by (auto split: sum.splits dest: read_recipe_fields_Inl)

lemma read_recipe_annotation_returns:
  "\<exists>res. read_recipe_annotation get_plot vars text = Inr res"
  unfolding read_recipe_annotation_def
  by (auto split: sum.splits dest: read_recipe_body_Inl)

lemma isl_map_err: "isl (map_err f xs) \<longleftrightarrow> \<not> list_all (\<lambda>x. \<not> isl (f x)) xs"
  by (induction xs) (auto split: sum.splits simp: isl_def)

lemma isl_bind:
  "isl (case x of Inl e \<Rightarrow> Inl e | Inr y \<Rightarrow> g y) \<longleftrightarrow> isl x \<or> (\<exists>y. x = Inr y \<and> isl (g y))"
  by (cases x) auto

lemma isl_RecipeParameterValue_init_var:
  "isl (RecipeParameterValue_init v None tc) \<longleftrightarrow> v = None"
  by (cases v) (auto simp: RecipeParameterValue_init_def)

lemma isl_RecipeParameterValue_init_const:
  "\<not> isl (RecipeParameterValue_init None (Some c) None)"
  by (auto simp: RecipeParameterValue_init_def)

lemma read_value_wf: "(\<not> isl (read_value vars t val)) \<longleftrightarrow> wf_value vars t val"
proof (cases "\<exists>v0 v1. py_split CHR '':'' val = [v0, v1]")
  case False
  then show ?thesis
    by (auto simp: read_value_def wf_value_def split: list.splits)
next
  case True
  then obtain v0 v1 where sp: "py_split CHR '':'' val = [v0, v1]" by blast
  have conn: "isl (read_connlist v1) \<longleftrightarrow> \<not> list_all is_int_literal (py_split CHR '','' v1)"
    by (simp add: read_connlist_def isl_map_err is_int_literal_def [abs_def])
  show ?thesis
  proof (cases "t = ''c''")
    case True
    then show ?thesis
      using conn
      by (simp add: read_value_def wf_value_def sp isl_bind
          isl_RecipeParameterValue_init_const)
        (auto simp: RecipeParameterValue_init_def)
  next
    case False
    then show ?thesis
      using conn
      by (auto simp: read_value_def wf_value_def sp isl_bind
          isl_RecipeParameterValue_init_var split: list.splits)
        (auto simp: isl_def RecipeParameterValue_init_def split: option.splits)
  qed
qed

lemma read_param_wf: "(\<not> isl (read_param vars seg)) \<longleftrightarrow> wf_segment vars seg"
  unfolding read_param_def wf_segment_def
  by (auto split: list.splits simp: isl_bind isl_map_err read_value_wf
      cong: list.pred_cong)

lemma read_param_Inr:
  "read_param vars seg = Inr (param, plist, cplist) \<Longrightarrow>
   param = segment_name seg \<and> length plist = length cplist \<and> plist \<noteq> []"
  unfolding read_param_def segment_name_def
  by (auto split: list.splits sum.splits if_splits dest!: map_err_Inr_length
      simp: py_split_not_Nil)

lemma read_params_isl:
  "isl (read_params vars segs ps cm) \<longleftrightarrow> \<not> list_all (wf_segment vars) segs"
proof (induction segs arbitrary: ps cm)
  case Nil
  then show ?case by simp
next
  case (Cons seg segs)
  show ?case
  proof (cases "read_param vars seg")
    case (Inl e)
    then have "\<not> wf_segment vars seg" using read_param_wf [of vars seg] by simp
    with Inl show ?thesis by simp
  next
    case (Inr x)
    then have "wf_segment vars seg" using read_param_wf [of vars seg] by simp
    with Inr Cons.IH show ?thesis by (cases x) simp
  qed
qed

lemma aligned_fmupd:
  "aligned ps cm \<Longrightarrow> plist \<noteq> [] \<Longrightarrow> length cplist = length plist \<Longrightarrow>
   aligned (fmupd param plist ps) (fmupd param cplist cm)"
  by (auto simp: aligned_def)

lemma read_params_Inr:
  "read_params vars segs ps cm = Inr (ps', cm') \<Longrightarrow> aligned ps cm \<Longrightarrow>
   aligned ps' cm' \<and> fmdom ps' = fmdom ps |\<union>| fset_of_list (map segment_name segs)"
proof (induction segs arbitrary: ps cm)
  case Nil
  then show ?case by simp
next
  case (Cons seg segs)
  from Cons.prems(1) obtain param plist cplist where
    rp: "read_param vars seg = Inr (param, plist, cplist)" and
    rest: "read_params vars segs (fmupd param plist ps) (fmupd param cplist cm) = Inr (ps', cm')"
    by (auto split: sum.splits)
  from read_param_Inr [OF rp] have
    nm: "param = segment_name seg" and len: "length plist = length cplist" and ne: "plist \<noteq> []"
    by simp_all
  have "aligned (fmupd param plist ps) (fmupd param cplist cm)"
    using aligned_fmupd [OF Cons.prems(2) ne] len by simp
  from Cons.IH [OF rest this] show ?case
    by (auto simp: nm)
qed

text \<open>
  What the body of the \<^verbatim>\<open>try\<close> computes. On a well-formed text: the plot of the
  catalog, one parameter for every segment, each with at least one value and one
  connection list per value. On any other text (a wrong field count, an unknown type
  tag, a plot the catalog does not know, a variable the store does not know, an edge id
  that is no integer) one of the exceptions the \<^verbatim>\<open>except\<close> clause catches.
\<close>

lemma read_recipe_fields_wf:
  assumes wf: "wf_annotation get_plot vars text"
  shows "\<exists>p ps cm. read_recipe_fields get_plot vars text = Inr (p, ps, cm) \<and>
         (\<exists>pkg nm. py_split CHR '','' (hd (py_split CHR '';'' text)) = [pkg, nm] \<and>
                    get_plot pkg nm = Some p) \<and>
         fmdom ps = fset_of_list (map segment_name (tl (py_split CHR '';'' text))) \<and>
         aligned ps cm"
proof -
  from wf obtain plot_text segments pkg nm p where
    sp: "py_split CHR '';'' text = plot_text # segments" and
    pl: "py_split CHR '','' plot_text = [pkg, nm]" and
    gp: "get_plot pkg nm = Some p" and
    segs: "list_all (wf_segment vars) segments"
    by (auto simp: wf_annotation_def split: list.splits)
  from segs have "\<not> isl (read_params vars segments fmempty fmempty)"
    by (simp add: read_params_isl)
  then obtain ps cm where rp: "read_params vars segments fmempty fmempty = Inr (ps, cm)"
    by (cases "read_params vars segments fmempty fmempty") auto
  have al: "aligned fmempty fmempty" by (simp add: aligned_def)
  from read_params_Inr [OF rp al] have
    a: "aligned ps cm" and d: "fmdom ps = fset_of_list (map segment_name segments)"
    by simp_all
  have "read_recipe_fields get_plot vars text = Inr (p, ps, cm)"
    by (simp add: read_recipe_fields_def sp pl gp rp)
  with a d sp pl gp show ?thesis by simp
qed

lemma read_recipe_fields_not_wf:
  assumes nwf: "\<not> wf_annotation get_plot vars text"
  shows "read_recipe_fields get_plot vars text = Inl KeyError \<or>
         read_recipe_fields get_plot vars text = Inl ValueError"
proof -
  have "isl (read_recipe_fields get_plot vars text)"
    using nwf read_params_isl [of vars _ fmempty fmempty]
    by (auto simp: wf_annotation_def read_recipe_fields_def isl_bind
        split: list.splits option.splits)
  then obtain e where e: "read_recipe_fields get_plot vars text = Inl e"
    by (cases "read_recipe_fields get_plot vars text") auto
  with read_recipe_fields_Inl [OF e] show ?thesis by auto
qed

lemma DATRecipe_init_empty:
  "DATRecipe_init p fmempty = Inr \<lparr>declared_plot = p, declared_variables = fmempty\<rparr>"
  by (simp add: DATRecipe_init_def sorted_list_of_fmap_empty)

lemma DATRecipe_init_nonempty:
  assumes "ps \<noteq> fmempty"
  shows "DATRecipe_init p ps = Inl AttributeError"
proof -
  from assms obtain k v where "fmlookup ps k = Some v"
    by (metis fmap_ext fmempty_lookup not_Some_eq)
  then have "(k, v) \<in> set (sorted_list_of_fmap ps)"
    by (simp add: set_sorted_list_of_fmap)
  then obtain x xs where "sorted_list_of_fmap ps = x # xs"
    by (cases "sorted_list_of_fmap ps") auto
  then show ?thesis
    by (simp add: DATRecipe_init_def sequence_name_def split: prod.splits)
qed

text \<open>
  C3: with the class \<^verbatim>\<open>DATRecipe\<close> of \<^verbatim>\<open>dat/__init__.py\<close>,
  \<^verbatim>\<open>_read_recipe_annotation\<close> lets AttributeError out on every well-formed text that
  has a parameter: the constructor call of the last statement raises it inside the
  \<^verbatim>\<open>try\<close>, and the \<^verbatim>\<open>except\<close> clause does not catch it. On a well-formed text
  without parameters the recipe is returned with an empty connection map, and on every
  other text \<^verbatim>\<open>(None, None)\<close>.
\<close>

theorem C3_decode_lets_AttributeError_out:
  "(wf_annotation get_plot vars text \<and> tl (py_split CHR '';'' text) \<noteq> [] \<longrightarrow>
      read_recipe_annotation_declared get_plot vars text = Inl AttributeError) \<and>
   (wf_annotation get_plot vars text \<and> tl (py_split CHR '';'' text) = [] \<longrightarrow>
      (\<exists>r. read_recipe_annotation_declared get_plot vars text = Inr (Some (r, fmempty)) \<and>
           declared_variables r = fmempty)) \<and>
   (\<not> wf_annotation get_plot vars text \<longrightarrow>
      read_recipe_annotation_declared get_plot vars text = Inr None)"
proof (intro conjI impI)
  assume "wf_annotation get_plot vars text \<and> tl (py_split CHR '';'' text) \<noteq> []"
  then have wf: "wf_annotation get_plot vars text" and ne: "tl (py_split CHR '';'' text) \<noteq> []"
    by simp_all
  from read_recipe_fields_wf [OF wf] obtain p ps cm where
    f: "read_recipe_fields get_plot vars text = Inr (p, ps, cm)" and
    d: "fmdom ps = fset_of_list (map segment_name (tl (py_split CHR '';'' text)))"
    by blast
  from ne d have "fmdom ps \<noteq> {||}"
    by (cases "tl (py_split CHR '';'' text)") auto
  then have "ps \<noteq> fmempty" by auto
  from DATRecipe_init_nonempty [OF this] f
  show "read_recipe_annotation_declared get_plot vars text = Inl AttributeError"
    by (simp add: read_recipe_annotation_declared_def)
next
  assume "wf_annotation get_plot vars text \<and> tl (py_split CHR '';'' text) = []"
  then have wf: "wf_annotation get_plot vars text" and e: "tl (py_split CHR '';'' text) = []"
    by simp_all
  from read_recipe_fields_wf [OF wf] obtain p ps cm where
    f: "read_recipe_fields get_plot vars text = Inr (p, ps, cm)" and
    d: "fmdom ps = fset_of_list (map segment_name (tl (py_split CHR '';'' text)))" and
    a: "aligned ps cm"
    by blast
  from d e have "fmdom ps = {||}" by simp
  then have ps: "ps = fmempty" by (simp add: fmap_ext fmdom_notD)
  with a have "fmdom cm = {||}" by (simp add: aligned_def)
  then have cm: "cm = fmempty" by (simp add: fmap_ext fmdom_notD)
  show "\<exists>r. read_recipe_annotation_declared get_plot vars text = Inr (Some (r, fmempty)) \<and>
           declared_variables r = fmempty"
    by (simp add: read_recipe_annotation_declared_def f ps cm DATRecipe_init_empty)
next
  assume "\<not> wf_annotation get_plot vars text"
  from read_recipe_fields_not_wf [OF this]
  show "read_recipe_annotation_declared get_plot vars text = Inr None"
    by (auto simp: read_recipe_annotation_declared_def)
qed

theorem C3_witness:
  "wf_annotation catalog0 (fmupd ''foo'' \<lparr>var_name = ''foo'', var_type = ''X''\<rparr> fmempty)
     ''pkgA,Scatter;x=v=foo:7'' \<and>
   tl (py_split CHR '';'' ''pkgA,Scatter;x=v=foo:7'') \<noteq> [] \<and>
   read_recipe_annotation_declared catalog0
     (fmupd ''foo'' \<lparr>var_name = ''foo'', var_type = ''X''\<rparr> fmempty)
     ''pkgA,Scatter;x=v=foo:7'' = Inl AttributeError \<and>
   wf_annotation catalog0 fmempty ''pkgA,Scatter'' \<and>
   tl (py_split CHR '';'' ''pkgA,Scatter'') = [] \<and>
   (\<exists>r. read_recipe_annotation_declared catalog0 fmempty ''pkgA,Scatter''
           = Inr (Some (r, fmempty))) \<and>
   \<not> wf_annotation catalog0 (fmupd ''foo'' \<lparr>var_name = ''foo'', var_type = ''X''\<rparr> fmempty)
     ''pkgA,Scatter;x=v=bar:7'' \<and>
   read_recipe_annotation_declared catalog0
     (fmupd ''foo'' \<lparr>var_name = ''foo'', var_type = ''X''\<rparr> fmempty)
     ''pkgA,Scatter;x=v=bar:7'' = Inr None"
proof -
  let ?vars = "fmupd ''foo'' \<lparr>var_name = ''foo'', var_type = ''X''\<rparr> fmempty"
  have a: "wf_annotation catalog0 ?vars ''pkgA,Scatter;x=v=foo:7''"
    by code_simp
  have a': "tl (py_split CHR '';'' ''pkgA,Scatter;x=v=foo:7'') \<noteq> []"
    by code_simp
  have b: "\<not> wf_annotation catalog0 ?vars ''pkgA,Scatter;x=v=bar:7''"
    by code_simp
  have e: "wf_annotation catalog0 fmempty ''pkgA,Scatter''"
    by code_simp
  have e': "tl (py_split CHR '';'' ''pkgA,Scatter'') = []"
    by code_simp
  from a a' C3_decode_lets_AttributeError_out [of catalog0 ?vars "''pkgA,Scatter;x=v=foo:7''"]
  have c: "read_recipe_annotation_declared catalog0 ?vars ''pkgA,Scatter;x=v=foo:7''
             = Inl AttributeError"
    by blast
  from b C3_decode_lets_AttributeError_out [of catalog0 ?vars "''pkgA,Scatter;x=v=bar:7''"]
  have d: "read_recipe_annotation_declared catalog0 ?vars ''pkgA,Scatter;x=v=bar:7'' = Inr None"
    by blast
  from e e' C3_decode_lets_AttributeError_out [of catalog0 fmempty "''pkgA,Scatter''"]
  have f: "\<exists>r. read_recipe_annotation_declared catalog0 fmempty ''pkgA,Scatter''
                 = Inr (Some (r, fmempty))"
    by blast
  from a a' b c d e e' f show ?thesis by blast
qed

subsection \<open>Loading the annotations\<close>

lemma load_variables_version_to_pipeline:
  "version_to_pipeline (load_variables read_type tags s) = version_to_pipeline s"
  by (induction read_type tags s rule: load_variables.induct)
    (auto simp: warn_def split: option.splits)

lemma load_variables_vistrail:
  "vistrail (load_variables read_type tags s) = vistrail s"
  by (induction read_type tags s rule: load_variables.induct)
    (auto simp: warn_def split: option.splits)

lemma load_recipes_Inr:
  "\<exists>s'. load_recipes get_plot ans s = Inr s' \<and>
        fmdom (version_to_pipeline s') |\<subseteq>|
          fmdom (version_to_pipeline s) |\<union>|
          fset_of_list (map action_id (filter (\<lambda>an. an_key an = RECIPE_KEY) ans))"
proof (induction ans arbitrary: s)
  case Nil
  then show ?case by simp
next
  case (Cons an ans)
  show ?case
  proof (cases "an_key an = RECIPE_KEY")
    case False
    with Cons.IH [of s] show ?thesis by auto
  next
    case True
    obtain res where res: "read_recipe_annotation get_plot (variables s) (an_value an) = Inr res"
      using read_recipe_annotation_returns by blast
    show ?thesis
    proof (cases res)
      case None
      with Cons.IH [of s] True res show ?thesis by auto
    next
      case (Some rc)
      obtain r cm where rc: "rc = (r, cm)" by (cases rc)
      let ?s = "s\<lparr>version_to_pipeline :=
                    fmupd (action_id an)
                      \<lparr>version = action_id an, recipe = r, conn_map = cm, port_map = None\<rparr>
                      (version_to_pipeline s)\<rparr>"
      from Cons.IH [of ?s] True res Some rc show ?thesis by auto
    qed
  qed
qed

lemma read_port_Inl: "read_port port = Inl e \<Longrightarrow> e = ValueError"
  unfolding read_port_def
  by (auto split: list.splits sum.splits dest: py_int_Inl)

lemma read_mapping_Inl: "read_mapping m = Inl e \<Longrightarrow> e = ValueError"
  unfolding read_mapping_def
  by (auto split: list.splits sum.splits if_splits dest!: map_err_Inl read_port_Inl)

lemma read_mappings_Inl: "read_mappings ms pm = Inl e \<Longrightarrow> e = ValueError"
  by (induction ms arbitrary: pm) (auto split: sum.splits dest: read_mapping_Inl)

lemma read_portmap_annotation_returns:
  "\<exists>res. read_portmap_annotation text = Inr res"
  unfolding read_portmap_annotation_def
  by (auto split: sum.splits dest: read_mappings_Inl)

lemma load_portmaps_KeyError:
  "\<exists>an\<in>set ans. an_key an = PORTMAP_KEY \<and> action_id an |\<notin>| fmdom (version_to_pipeline s) \<Longrightarrow>
   load_portmaps ans s = Inl KeyError"
proof (induction ans arbitrary: s)
  case Nil
  then show ?case by simp
next
  case (Cons a ans)
  show ?case
  proof (cases "an_key a = PORTMAP_KEY")
    case False
    with Cons show ?thesis by auto
  next
    case True
    show ?thesis
    proof (cases "fmlookup (version_to_pipeline s) (action_id a)")
      case None
      with True show ?thesis by simp
    next
      case (Some pipeline)
      then have here: "action_id a |\<in>| fmdom (version_to_pipeline s)"
        by (rule fmdomI)
      with Cons.prems have
        rest: "\<exists>an\<in>set ans. an_key an = PORTMAP_KEY \<and> action_id an |\<notin>| fmdom (version_to_pipeline s)"
        by auto
      obtain res where res: "read_portmap_annotation (an_value a) = Inr res"
        using read_portmap_annotation_returns by blast
      show ?thesis
      proof (cases res)
        case None
        with True Some res Cons.IH [OF rest] show ?thesis
          by (simp add: PipelineInformation_truth_def)
      next
        case (Some pm)
        let ?s = "s\<lparr>version_to_pipeline :=
                     fmupd (action_id a) (pipeline\<lparr>port_map := Some pm\<rparr>) (version_to_pipeline s)\<rparr>"
        have "fmdom (version_to_pipeline ?s) = fmdom (version_to_pipeline s)"
          using here by auto
        with rest have
          "\<exists>an\<in>set ans. an_key an = PORTMAP_KEY \<and> action_id an |\<notin>| fmdom (version_to_pipeline ?s)"
          by simp
        from Cons.IH [OF this] True \<open>fmlookup (version_to_pipeline s) (action_id a) = Some pipeline\<close>
          res Some
        show ?thesis by (simp add: PipelineInformation_truth_def)
      qed
    qed
  qed
qed

text \<open>
  C2: a document with a \<^verbatim>\<open>dat-ports\<close> annotation at a version that has no
  \<^verbatim>\<open>dat-recipe\<close> annotation. The spec has the constructor warn, delete the
  annotation and go on. The constructor subscripts the dictionary of the records with
  the version (\<^verbatim>\<open>self._version_to_pipeline[an.action_id]\<close>), so it raises KeyError
  on every such document; the branch that warns and deletes is never reached.
\<close>

theorem C2_orphan_port_map_raises:
  assumes "an \<in> set (action_annotations doc)" and "an_key an = PORTMAP_KEY"
    and "\<forall>a\<in>set (action_annotations doc). an_key a = RECIPE_KEY \<longrightarrow> action_id a \<noteq> action_id an"
  shows "VistrailData_init get_plot read_type doc = Inl KeyError"
proof -
  define s0 where "s0 = \<lparr>vistrail = doc, variables = fmempty, cell_to_version = fmempty,
                version_to_pipeline = fmempty, cell_to_pipeline = fmempty,
                failed_infer_calls = {}, warnings = []\<rparr>"
  define s1 where "s1 = (if has_tag_str doc ''dat-vars''
                then load_variables read_type (sorted_list_of_fmap (tagMap doc)) s0 else s0)"
  have e: "version_to_pipeline s1 = fmempty"
    by (simp add: s1_def s0_def load_variables_version_to_pipeline)
  obtain s2 where s2: "load_recipes get_plot (action_annotations doc) s1 = Inr s2"
    and dom: "fmdom (version_to_pipeline s2) |\<subseteq>|
          fmdom (version_to_pipeline s1) |\<union>|
          fset_of_list (map action_id (filter (\<lambda>an. an_key an = RECIPE_KEY) (action_annotations doc)))"
    using load_recipes_Inr [of get_plot "action_annotations doc" s1] by blast
  have "action_id an |\<notin>| fmdom (version_to_pipeline s2)"
  proof
    assume "action_id an |\<in>| fmdom (version_to_pipeline s2)"
    with dom e have "action_id an \<in> action_id ` {a \<in> set (action_annotations doc). an_key a = RECIPE_KEY}"
      by (auto simp: fset_of_list.rep_eq)
    with assms(3) show False by auto
  qed
  with assms(1,2) have "load_portmaps (action_annotations doc) s2 = Inl KeyError"
    by (intro load_portmaps_KeyError) auto
  then show ?thesis
    by (simp add: VistrailData_init_def Let_def s0_def [symmetric] s1_def [symmetric] s2)
qed

theorem C2_witness:
  "VistrailData_init catalog0 (\<lambda>p. None) orphan_doc = Inl KeyError"
  by (rule C2_orphan_port_map_raises
        [of "\<lparr>action_id = 12, an_key = ''dat-ports'', an_value = ''x=3,input''\<rparr>"])
    (simp_all add: orphan_doc_def PORTMAP_KEY_def RECIPE_KEY_def)

subsection \<open>Inference: the values that are kept\<close>



lemma project_pipelineinfo_Some:
  assumes "project_pipelineinfo v cellInfo parentInfo s = (Inr (Some info), s')"
  shows "\<exists>pm new_parameters new_conn_map.
           port_map parentInfo = Some pm \<and>
           ports_survive (modules (getPipeline (vistrail s) v)) pm \<and>
           filter_parameters (connections (getPipeline (vistrail s) v)) (conn_map parentInfo)
             (sorted_list_of_fmap (parameters (recipe parentInfo))) fmempty fmempty
             = Inr (new_parameters, new_conn_map) \<and>
           info = \<lparr>version = v,
                   recipe = \<lparr>plot = plot (recipe parentInfo), parameters = new_parameters\<rparr>,
                   conn_map = new_conn_map, port_map = port_map parentInfo\<rparr> \<and>
           created_pipeline False cellInfo info s = (Inr (), s')"
  using assms unfolding project_pipelineinfo_def Let_def fail_def
  by (auto split: option.splits if_splits sum.splits prod.splits)

lemma map_of_sorted_list_of_fmap: "map_of (sorted_list_of_fmap m) = fmlookup m"
  by simp


lemma infer_pipelineinfo_Some:
  assumes "infer_pipelineinfo depth v cellInfo s = (Inr (Some info), s')"
  shows "\<exists>d parentId parentInfo s1.
           depth = Suc d \<and> v \<notin> failed_infer_calls s \<and>
           fmlookup (actionMap (vistrail s)) v = Some parentId \<and>
           get_pipeline_version d parentId (Some cellInfo) s = (Inr (Some parentInfo), s1) \<and>
           project_pipelineinfo v cellInfo parentInfo s1 = (Inr (Some info), s')"
proof -
  from assms have nf: "v \<notin> failed_infer_calls s"
    by (auto simp: infer_pipelineinfo.simps)
  with assms obtain parentId where p: "fmlookup (actionMap (vistrail s)) v = Some parentId"
    by (auto simp: infer_pipelineinfo.simps fail_def split: option.splits)
  with assms nf obtain d where d: "depth = Suc d"
    by (cases depth) (auto simp: infer_pipelineinfo.simps)
  obtain r s1 where g: "get_pipeline_version d parentId (Some cellInfo) s = (r, s1)"
    by (cases "get_pipeline_version d parentId (Some cellInfo) s")
  with assms nf p d obtain parentInfo where "r = Inr (Some parentInfo)"
    and "project_pipelineinfo v cellInfo parentInfo s1 = (Inr (Some info), s')"
    by (auto simp: infer_pipelineinfo.simps fail_def split: sum.splits option.splits)
  with nf p d g show ?thesis by blast
qed

lemma store_frame_refl: "store_frame s s"
  by (simp add: store_frame_def)

lemma store_frame_trans: "store_frame s s' \<Longrightarrow> store_frame s' s'' \<Longrightarrow> store_frame s s''"
  by (auto simp: store_frame_def)

lemma store_frame_warn: "store_frame s (warn msg s)"
  by (simp add: store_frame_def warn_def)

lemma store_frame_annotate: "store_frame s (annotate v k val s)"
  by (simp add: store_frame_def annotate_def set_action_annotation_def)

lemma store_frame_fail: "store_frame s (snd (fail v s))"
  by (auto simp: store_frame_def fail_def)

lemma store_frame_register: "store_frame s (snd (register_pipeline c p s))"
  by (auto simp: register_pipeline_def Let_def store_frame_def annotate_def
      set_action_annotation_def split: sum.splits option.splits)

lemma store_frame_created: "store_frame s (snd (created_pipeline same c p s))"
  unfolding created_pipeline_def
  by (auto split: option.splits
      intro: store_frame_refl store_frame_register
        store_frame_trans [OF store_frame_warn store_frame_register])

lemma store_frame_project: "store_frame s (snd (project_pipelineinfo v c parentInfo s))"
  unfolding project_pipelineinfo_def Let_def
  using store_frame_created [of s False c]
  by (auto split: option.splits sum.splits prod.splits
      intro: store_frame_refl store_frame_fail simp: split_beta)

lemma store_frame_get_infer:
  "store_frame s (snd (get_pipeline_version depth v infer_for_cell s))"
  "store_frame s (snd (infer_pipelineinfo depth v cellInfo s))"
proof (induction depth v infer_for_cell s and depth v cellInfo s
    rule: get_pipeline_version_infer_pipelineinfo.induct)
  case (1 depth v infer_for_cell s)
  then show ?case
    by (auto simp: get_pipeline_version.simps store_frame_refl split: option.splits)
next
  case (2 depth v cellInfo s)
  show ?case
  proof (cases "v \<in> failed_infer_calls s")
    case True
    then show ?thesis by (simp add: infer_pipelineinfo.simps store_frame_refl)
  next
    case nf: False
    show ?thesis
    proof (cases "fmlookup (actionMap (vistrail s)) v")
      case None
      with nf show ?thesis by (simp add: infer_pipelineinfo.simps store_frame_fail)
    next
      case (Some parentId)
      show ?thesis
      proof (cases depth)
        case 0
        with nf Some show ?thesis by (simp add: infer_pipelineinfo.simps store_frame_refl)
      next
        case (Suc d)
        obtain r s1 where g: "get_pipeline_version d parentId (Some cellInfo) s = (r, s1)"
          by (cases "get_pipeline_version d parentId (Some cellInfo) s")
        from "2.IH" [OF nf Some Suc] g have f1: "store_frame s s1" by simp
        show ?thesis
          using nf Some Suc g f1
            store_frame_trans [OF f1 store_frame_fail [of s1 v]]
            store_frame_trans [OF f1 store_frame_project [of s1 v cellInfo]]
          by (auto simp: infer_pipelineinfo.simps split: sum.splits option.splits)
      qed
    qed
  qed
qed




subsection \<open>Registering a record: created\_pipeline\<close>

lemma find_append: "find P (xs @ ys) = (case find P xs of None \<Rightarrow> find P ys | Some x \<Rightarrow> Some x)"
  by (induction xs) auto

lemma find_annotation_removed:
  "find (\<lambda>an. action_id an = v \<and> an_key an = k)
     (filter (\<lambda>an. action_id an = v \<longrightarrow> an_key an \<noteq> k) xs) = None"
  by (induction xs) auto

lemma find_annotation_kept:
  "v' \<noteq> v \<or> k' \<noteq> k \<Longrightarrow>
   find (\<lambda>an. action_id an = v \<and> an_key an = k)
     (filter (\<lambda>an. action_id an = v' \<longrightarrow> an_key an \<noteq> k') xs) =
   find (\<lambda>an. action_id an = v \<and> an_key an = k) xs"
  by (induction xs) auto

lemma get_set_action_annotation_same:
  "get_action_annotation (set_action_annotation v k val doc) v k = val"
  by (cases val)
    (simp_all add: get_action_annotation_def set_action_annotation_def find_append
      find_annotation_removed)

lemma get_set_action_annotation_other:
  "v' \<noteq> v \<or> k' \<noteq> k \<Longrightarrow>
   get_action_annotation (set_action_annotation v' k' val doc) v k = get_action_annotation doc v k"
  unfolding get_action_annotation_def set_action_annotation_def
  by (cases val) (auto simp: find_append find_annotation_kept split: option.splits)

lemma register_pipeline_ok:
  assumes "build_recipe_annotation (recipe pipeline) (conn_map pipeline) = Inr text"
    and "port_map pipeline = Some pm"
  shows "\<exists>s'. register_pipeline cellInfo pipeline s = (Inr (), s') \<and>
           warnings s' = warnings s \<and>
           failed_infer_calls s' = failed_infer_calls s \<and>
           version_to_pipeline s' = fmupd (version pipeline) pipeline (version_to_pipeline s) \<and>
           cell_to_pipeline s' = fmupd cellInfo pipeline (cell_to_pipeline s) \<and>
           cell_to_version s' = fmupd cellInfo (version pipeline) (cell_to_version s) \<and>
           get_action_annotation (vistrail s') (version pipeline) RECIPE_KEY = Some text \<and>
           get_action_annotation (vistrail s') (version pipeline) PORTMAP_KEY =
             Some (build_portmap_annotation pm)"
  using assms
  by (simp add: register_pipeline_def Let_def annotate_def get_set_action_annotation_same
      get_set_action_annotation_other RECIPE_KEY_def PORTMAP_KEY_def)

text \<open>
  C7, amended: when the version already has a record with a different recipe and the new
  record can be encoded (\<^verbatim>\<open>_build_recipe_annotation\<close> returns a text and the record
  has a port map), \<^verbatim>\<open>created_pipeline\<close> emits exactly one warning, does not raise,
  leaves the new record in the store and writes both annotations for the version.
\<close>

theorem C7_conflict_overwrite:
  assumes "fmlookup (version_to_pipeline s) (version pipeline) = Some p"
    and "recipe p \<noteq> recipe pipeline"
    and "build_recipe_annotation (recipe pipeline) (conn_map pipeline) = Inr text"
    and "port_map pipeline = Some pm"
  shows "\<exists>s'. created_pipeline same cellInfo pipeline s = (Inr (), s') \<and>
           length (warnings s') = Suc (length (warnings s)) \<and>
           fmlookup (version_to_pipeline s') (version pipeline) = Some pipeline \<and>
           fmlookup (cell_to_pipeline s') cellInfo = Some pipeline \<and>
           fmlookup (cell_to_version s') cellInfo = Some (version pipeline) \<and>
           get_action_annotation (vistrail s') (version pipeline) RECIPE_KEY = Some text \<and>
           get_action_annotation (vistrail s') (version pipeline) PORTMAP_KEY =
             Some (build_portmap_annotation pm)"
proof -
  from assms(2) have ne: "p \<noteq> pipeline" by auto
  let ?w = "warn ''A new pipeline was created with a previously known version! replacing...'' s"
  from register_pipeline_ok [OF assms(3,4), of cellInfo ?w] obtain s' where
    "register_pipeline cellInfo pipeline ?w = (Inr (), s')" and
    "warnings s' = warnings ?w" and
    "version_to_pipeline s' = fmupd (version pipeline) pipeline (version_to_pipeline ?w)" and
    "cell_to_pipeline s' = fmupd cellInfo pipeline (cell_to_pipeline ?w)" and
    "cell_to_version s' = fmupd cellInfo (version pipeline) (cell_to_version ?w)" and
    "get_action_annotation (vistrail s') (version pipeline) RECIPE_KEY = Some text" and
    "get_action_annotation (vistrail s') (version pipeline) PORTMAP_KEY =
             Some (build_portmap_annotation pm)"
    by blast
  with assms(1) ne show ?thesis
    by (simp add: created_pipeline_def warn_def)
qed

text \<open>
  C7 as the spec states it, for every store and record: it fails for a record whose
  recipe binds two constants to one parameter. The store holds \<open>parent_info\<close> at
  version 12; \<^verbatim>\<open>created_pipeline\<close> with \<open>two_constants_info\<close> raises ValueError
  out of the encoder, after the dictionaries are written and before any annotation is.
\<close>

theorem C7_counterexample:
  "fmlookup (version_to_pipeline partial_store) (version two_constants_info) = Some parent_info \<and>
   recipe parent_info \<noteq> recipe two_constants_info \<and>
   fst (created_pipeline False (0, 0) two_constants_info partial_store) = Inl ValueError \<and>
   get_action_annotation
     (vistrail (snd (created_pipeline False (0, 0) two_constants_info partial_store)))
     12 RECIPE_KEY = None \<and>
   get_action_annotation
     (vistrail (snd (created_pipeline False (0, 0) two_constants_info partial_store)))
     12 PORTMAP_KEY = None"
  by code_simp

theorem C7_witness:
  "fmlookup (version_to_pipeline partial_store) (version other_info) = Some parent_info \<and>
   recipe parent_info \<noteq> recipe other_info \<and>
   build_recipe_annotation (recipe other_info) (conn_map other_info)
     = Inr ''pkgA,Scatter;p=c=a%3Bb:1,2'' \<and>
   (\<exists>s'. created_pipeline False (0, 0) other_info partial_store = (Inr (), s') \<and>
      length (warnings s') = 1 \<and>
      fmlookup (version_to_pipeline s') 12 = Some other_info \<and>
      get_action_annotation (vistrail s') 12 RECIPE_KEY = Some ''pkgA,Scatter;p=c=a%3Bb:1,2'' \<and>
      get_action_annotation (vistrail s') 12 PORTMAP_KEY = Some ''p=3,input'')"
proof -
  have a: "fmlookup (version_to_pipeline partial_store) (version other_info) = Some parent_info"
    by code_simp
  have b: "recipe parent_info \<noteq> recipe other_info"
    by code_simp
  have c: "build_recipe_annotation (recipe other_info) (conn_map other_info)
     = Inr ''pkgA,Scatter;p=c=a%3Bb:1,2''"
    by code_simp
  have d: "port_map other_info = Some (fmupd ''p'' [(3, ''input'')] fmempty)"
    by (simp add: other_info_def)
  have e: "build_portmap_annotation (fmupd ''p'' [(3, ''input'')] fmempty) = ''p=3,input''"
    by code_simp
  have v: "version other_info = 12" "warnings partial_store = []"
    by (simp_all add: other_info_def partial_store_def)
  from C7_conflict_overwrite [OF a b c d, of False "(0, 0)"] a b c show ?thesis
    unfolding e v by auto
qed

subsection \<open>Inference when everything survives\<close>




text \<open>
  \<open>infer_fields\<close> is the first part of \<open>infer_pipelineinfo\<close>: the latter goes on
  with the new record and \<^verbatim>\<open>created_pipeline\<close>.
\<close>

lemma project_pipelineinfo_fields:
  "project_pipelineinfo v cellInfo parentInfo s =
     (case project_fields v parentInfo s of
        Inl e \<Rightarrow> (Inl e, s)
      | Inr None \<Rightarrow> fail v s
      | Inr (Some (new_parameters, new_conn_map)) \<Rightarrow>
          (let pipelineInfo =
                 \<lparr>version = v,
                  recipe = \<lparr>plot = plot (recipe parentInfo), parameters = new_parameters\<rparr>,
                  conn_map = new_conn_map,
                  port_map = port_map parentInfo\<rparr>
           in case created_pipeline False cellInfo pipelineInfo s of
                (Inl e, s') \<Rightarrow> (Inl e, s')
              | (Inr u, s') \<Rightarrow> (Inr (Some pipelineInfo), s')))"
  by (simp add: project_pipelineinfo_def project_fields_def Let_def
      split: option.splits sum.splits prod.splits)

lemma infer_pipelineinfo_fields:
  "infer_pipelineinfo depth v cellInfo s =
     (case infer_fields depth v cellInfo s of
        (Inl e, s') \<Rightarrow> (Inl e, s')
      | (Inr None, s') \<Rightarrow> (Inr None, s')
      | (Inr (Some (p, new_parameters, new_conn_map, pm)), s') \<Rightarrow>
          (let pipelineInfo =
                 \<lparr>version = v,
                  recipe = \<lparr>plot = p, parameters = new_parameters\<rparr>,
                  conn_map = new_conn_map,
                  port_map = pm\<rparr>
           in case created_pipeline False cellInfo pipelineInfo s' of
                (Inl e, s'') \<Rightarrow> (Inl e, s'')
              | (Inr u, s'') \<Rightarrow> (Inr (Some pipelineInfo), s'')))"
  unfolding infer_pipelineinfo.simps [of depth v cellInfo s] infer_fields_def
    project_pipelineinfo_fields
  by (simp add: fail_def split: option.splits nat.splits sum.splits prod.splits)




subsection \<open>The invariant\<close>

lemma store_inv_warn: "store_inv (warn msg s) = store_inv s"
  by (simp add: store_inv_def warn_def)

lemma store_inv_annotate: "store_inv (annotate v k val s) = store_inv s"
  by (simp add: store_inv_def annotate_def)

lemma store_inv_register_maps:
  assumes "store_inv s"
  shows "store_inv (s\<lparr>cell_to_version := fmupd c (version p) (cell_to_version s),
                     version_to_pipeline := fmupd (version p) p (version_to_pipeline s),
                     cell_to_pipeline := fmupd c p (cell_to_pipeline s)\<rparr>)"
  using assms unfolding store_inv_def by auto

lemma store_inv_register: "store_inv s \<Longrightarrow> store_inv (snd (register_pipeline c p s))"
  unfolding register_pipeline_def Let_def
  by (auto split: sum.splits option.splits simp: store_inv_annotate
      intro: store_inv_register_maps)

lemma store_inv_created: "store_inv s \<Longrightarrow> store_inv (snd (created_pipeline same c p s))"
  unfolding created_pipeline_def
  by (auto split: option.splits simp: store_inv_warn intro: store_inv_register)

lemma store_inv_fail: "store_inv s \<Longrightarrow> store_inv (snd (fail v s))"
  by (simp add: store_inv_def fail_def)

lemma store_inv_project:
  "store_inv s \<Longrightarrow> store_inv (snd (project_pipelineinfo v c parentInfo s))"
  unfolding project_pipelineinfo_def Let_def
  using store_inv_created [of s False c]
  by (auto split: option.splits sum.splits prod.splits intro: store_inv_fail simp: split_beta)

lemma store_inv_get_infer:
  "store_inv s \<Longrightarrow> store_inv (snd (get_pipeline_version depth v infer_for_cell s))"
  "store_inv s \<Longrightarrow> store_inv (snd (infer_pipelineinfo depth v cellInfo s))"
proof (induction depth v infer_for_cell s and depth v cellInfo s
    rule: get_pipeline_version_infer_pipelineinfo.induct)
  case (1 depth v infer_for_cell s)
  then show ?case
    by (auto simp: get_pipeline_version.simps split: option.splits)
next
  case (2 depth v cellInfo s)
  show ?case
  proof (cases "v \<in> failed_infer_calls s")
    case True
    with "2.prems" show ?thesis by (simp add: infer_pipelineinfo.simps)
  next
    case nf: False
    show ?thesis
    proof (cases "fmlookup (actionMap (vistrail s)) v")
      case None
      with nf "2.prems" show ?thesis by (simp add: infer_pipelineinfo.simps store_inv_fail)
    next
      case (Some parentId)
      show ?thesis
      proof (cases depth)
        case 0
        with nf Some "2.prems" show ?thesis by (simp add: infer_pipelineinfo.simps)
      next
        case (Suc d)
        obtain r s1 where g: "get_pipeline_version d parentId (Some cellInfo) s = (r, s1)"
          by (cases "get_pipeline_version d parentId (Some cellInfo) s")
        from "2.IH" [OF nf Some Suc "2.prems"] g have i1: "store_inv s1" by simp
        show ?thesis
          using nf Some Suc g i1 store_inv_fail [OF i1, of v]
            store_inv_project [OF i1, of v cellInfo]
          by (auto simp: infer_pipelineinfo.simps split: sum.splits option.splits)
      qed
    qed
  qed
qed

lemma store_inv_get: "store_inv s \<Longrightarrow> store_inv (snd (get_pipeline depth param infer_for_cell s))"
  by (cases param) (auto simp: get_pipeline_def intro: store_inv_get_infer(1))

lemma store_inv_new_variable: "store_inv s \<Longrightarrow> store_inv (snd (new_variable n var s))"
  by (auto simp: new_variable_def store_inv_def split: option.splits)

lemma load_variables_maps:
  "cell_to_pipeline (load_variables read_type tags s) = cell_to_pipeline s \<and>
   cell_to_version (load_variables read_type tags s) = cell_to_version s \<and>
   version_to_pipeline (load_variables read_type tags s) = version_to_pipeline s"
  by (induction read_type tags s rule: load_variables.induct)
    (auto simp: warn_def split: option.splits)

lemma store_inv_load_variables:
  "store_inv (load_variables read_type tags s) = store_inv s"
  by (simp add: store_inv_def load_variables_maps)

lemma store_inv_load_recipes:
  "load_recipes get_plot ans s = Inr s' \<Longrightarrow> store_inv s \<Longrightarrow> store_inv s'"
proof (induction ans arbitrary: s)
  case Nil
  then show ?case by simp
next
  case (Cons an ans)
  have step: "store_inv (s\<lparr>version_to_pipeline :=
                    fmupd (action_id an)
                      \<lparr>version = action_id an, recipe = r, conn_map = cm, port_map = None\<rparr>
                      (version_to_pipeline s)\<rparr>)" for r cm
    using Cons.prems(2) unfolding store_inv_def by auto
  from Cons.prems(1) show ?case
    using Cons.IH Cons.prems(2) step
    by (auto split: if_splits sum.splits option.splits)
qed

lemma store_inv_load_portmaps:
  "load_portmaps ans s = Inr s' \<Longrightarrow> store_inv s \<Longrightarrow> store_inv s'"
proof (induction ans arbitrary: s)
  case Nil
  then show ?case by simp
next
  case (Cons an ans)
  have step: "store_inv (s\<lparr>version_to_pipeline :=
                    fmupd (action_id an) (pipeline\<lparr>port_map := Some pm\<rparr>) (version_to_pipeline s)\<rparr>)"
    if "fmlookup (version_to_pipeline s) (action_id an) = Some pipeline" for pipeline pm
    using Cons.prems(2) that unfolding store_inv_def by auto
  from Cons.prems(1) show ?case
    using Cons.IH Cons.prems(2) step
    by (auto split: if_splits sum.splits option.splits
        simp: store_inv_warn store_inv_annotate)
qed

lemma store_inv_init:
  assumes "VistrailData_init get_plot read_type doc = Inr s"
  shows "store_inv s"
proof -
  define s0 where "s0 = \<lparr>vistrail = doc, variables = fmempty, cell_to_version = fmempty,
                version_to_pipeline = fmempty, cell_to_pipeline = fmempty,
                failed_infer_calls = {}, warnings = []\<rparr>"
  define s1 where "s1 = (if has_tag_str doc ''dat-vars''
                then load_variables read_type (sorted_list_of_fmap (tagMap doc)) s0 else s0)"
  have "store_inv s0" by (simp add: s0_def store_inv_def)
  then have i1: "store_inv s1" by (simp add: s1_def store_inv_load_variables)
  from assms obtain s2 where
    a: "load_recipes get_plot (action_annotations doc) s1 = Inr s2" and
    b: "load_portmaps (action_annotations doc) s2 = Inr s"
    by (auto simp: VistrailData_init_def Let_def s0_def [symmetric] s1_def [symmetric]
        split: sum.splits)
  from store_inv_load_portmaps [OF b store_inv_load_recipes [OF a i1]] show ?thesis .
qed

lemma discover_cells_values:
  "fmlookup (discover_cells location xs cells) c = Some p \<Longrightarrow>
   fmlookup cells c = Some p \<or> p \<in> snd ` set xs"
proof (induction xs arbitrary: cells)
  case Nil
  then show ?case by simp
next
  case (Cons x xs)
  obtain k pipeline where x: "x = (k, pipeline)" by (cases x)
  from Cons.prems have
    "fmlookup cells c = Some p \<or> p = pipeline \<or> p \<in> snd ` set xs"
    by (auto simp: x split: option.splits if_splits dest!: Cons.IH)
  then show ?case by (auto simp: x)
qed

lemma store_inv_assign_cells:
  "store_inv s \<Longrightarrow> \<forall>(c, p)\<in>set ys. version p |\<in>| fmdom (version_to_pipeline s) \<Longrightarrow>
   store_inv (assign_cells ys s)"
proof (induction ys arbitrary: s)
  case Nil
  then show ?case by simp
next
  case (Cons y ys)
  obtain c p where y: "y = (c, p)" by (cases y)
  let ?s = "s\<lparr>cell_to_pipeline := fmupd c p (cell_to_pipeline s),
              cell_to_version := fmupd c (version p) (cell_to_version s)\<rparr>"
  from Cons.prems y have "store_inv ?s"
    unfolding store_inv_def by auto
  moreover from Cons.prems have "\<forall>(c, p)\<in>set ys. version p |\<in>| fmdom (version_to_pipeline ?s)"
    by auto
  ultimately have "store_inv (assign_cells ys ?s)" by (rule Cons.IH)
  then show ?case by (simp add: y)
qed

lemma store_inv_discover:
  assumes "store_inv s"
  shows "store_inv (discover_cell_pipelines location s)"
  unfolding discover_cell_pipelines_def
proof (rule store_inv_assign_cells [OF assms], clarify)
  fix c p
  assume "(c, p) \<in> set (sorted_list_of_fmap
            (discover_cells location (sorted_list_of_fmap (version_to_pipeline s)) fmempty))"
  then have "fmlookup (discover_cells location (sorted_list_of_fmap (version_to_pipeline s)) fmempty) c
               = Some p"
    by (simp add: set_sorted_list_of_fmap)
  from discover_cells_values [OF this]
  obtain k where "fmlookup (version_to_pipeline s) k = Some p"
    by (auto simp: set_sorted_list_of_fmap)
  with assms show "version p |\<in>| fmdom (version_to_pipeline s)"
    unfolding store_inv_def by (auto intro: fmdomI)
qed

lemma reannotate_maps:
  "cell_to_pipeline (snd (reannotate n xs s)) = cell_to_pipeline s \<and>
   cell_to_version (snd (reannotate n xs s)) = cell_to_version s \<and>
   version_to_pipeline (snd (reannotate n xs s)) = version_to_pipeline s"
  by (induction n xs s rule: reannotate.induct)
    (auto simp: annotate_def split: sum.splits)

lemma store_inv_reannotate: "store_inv (snd (reannotate n xs s)) = store_inv s"
  by (simp add: store_inv_def reannotate_maps)

lemma version_rename_in_pipeline [simp]: "version (rename_in_pipeline var n p) = version p"
  by (simp add: rename_in_pipeline_def)

lemma store_inv_rename:
  assumes "store_inv s"
  shows "store_inv (snd (rename_variable old_varname new_varname s))"
proof -
  have "store_inv (s\<lparr>variables := vs,
                     version_to_pipeline := fmmap (rename_in_pipeline var n) (version_to_pipeline s),
                     cell_to_pipeline := fmmap (rename_in_pipeline var n) (cell_to_pipeline s)\<rparr>)"
    for vs var n
    using assms unfolding store_inv_def by (auto simp: fmlookup_dom_iff)
  then show ?thesis
    using assms
    by (auto simp: rename_variable_def remove_variable_mappings_def Let_def
        store_inv_reannotate split: option.splits)
qed

lemma remove_versions_ok:
  "distinct vs \<Longrightarrow> set vs \<subseteq> fmdom' (version_to_pipeline s) \<Longrightarrow>
   \<exists>s'. remove_versions vs s = (Inr (), s') \<and>
        version_to_pipeline s' = fmdrop_set (set vs) (version_to_pipeline s) \<and>
        cell_to_version s' = cell_to_version s \<and>
        cell_to_pipeline s' = cell_to_pipeline s"
proof (induction vs arbitrary: s)
  case Nil
  then show ?case by simp
next
  case (Cons v vs)
  from Cons.prems obtain p where p: "fmlookup (version_to_pipeline s) v = Some p"
    by (auto simp: fmdom'_alt_def fmlookup_dom_iff)
  let ?s = "annotate v PORTMAP_KEY None
               (annotate v RECIPE_KEY None
                  (s\<lparr>version_to_pipeline := fmdrop v (version_to_pipeline s)\<rparr>))"
  have v2p: "version_to_pipeline ?s = fmdrop v (version_to_pipeline s)"
    and c: "cell_to_version ?s = cell_to_version s" "cell_to_pipeline ?s = cell_to_pipeline s"
    by (simp_all add: annotate_def)
  from Cons.prems have d: "distinct vs" and sub: "set vs \<subseteq> fmdom' (version_to_pipeline ?s)"
    by (auto simp: v2p)
  from Cons.IH [OF d sub] obtain s' where
    r: "remove_versions vs ?s = (Inr (), s')" and
    v': "version_to_pipeline s' = fmdrop_set (set vs) (version_to_pipeline ?s)" and
    c': "cell_to_version s' = cell_to_version ?s" "cell_to_pipeline s' = cell_to_pipeline ?s"
    by blast
  have "fmdrop_set (set vs) (fmdrop v (version_to_pipeline s)) =
        fmdrop_set (set (v # vs)) (version_to_pipeline s)"
    by (rule fmap_ext) auto
  with r v' c' show ?case
    by (simp add: p v2p c)
qed

lemma remove_cells_ok:
  "distinct cs \<Longrightarrow> set cs \<subseteq> fmdom' (cell_to_version s) \<Longrightarrow>
   fmdom (cell_to_version s) = fmdom (cell_to_pipeline s) \<Longrightarrow>
   \<exists>s'. remove_cells cs s = (Inr (), s') \<and>
        cell_to_version s' = fmdrop_set (set cs) (cell_to_version s) \<and>
        cell_to_pipeline s' = fmdrop_set (set cs) (cell_to_pipeline s) \<and>
        version_to_pipeline s' = version_to_pipeline s"
proof (induction cs arbitrary: s)
  case Nil
  then show ?case by simp
next
  case (Cons c cs)
  from Cons.prems(2) have "c |\<in>| fmdom (cell_to_version s)"
    by (simp add: fmdom'_alt_def)
  then obtain v where v: "fmlookup (cell_to_version s) c = Some v"
    by (meson fmlookup_dom_iff)
  from Cons.prems(3) v obtain p where p: "fmlookup (cell_to_pipeline s) c = Some p"
    by (metis fmdomI fmlookup_dom_iff)
  let ?s = "s\<lparr>cell_to_version := fmdrop c (cell_to_version s),
              cell_to_pipeline := fmdrop c (cell_to_pipeline s)\<rparr>"
  from Cons.prems have d: "distinct cs" and sub: "set cs \<subseteq> fmdom' (cell_to_version ?s)"
    and eq: "fmdom (cell_to_version ?s) = fmdom (cell_to_pipeline ?s)"
    by auto
  from Cons.IH [OF d sub eq] obtain s' where
    r: "remove_cells cs ?s = (Inr (), s')" and
    a: "cell_to_version s' = fmdrop_set (set cs) (cell_to_version ?s)" and
    b: "cell_to_pipeline s' = fmdrop_set (set cs) (cell_to_pipeline ?s)" and
    e: "version_to_pipeline s' = version_to_pipeline ?s"
    by blast
  have "fmdrop_set (set cs) (fmdrop c m) = fmdrop_set (set (c # cs)) m" for m :: "(cell, 'x) fmap"
    by (rule fmap_ext) auto
  with r a b e show ?case
    by (simp add: v p Let_def)
qed

lemma distinct_map_fst_filter:
  "distinct (map fst xs) \<Longrightarrow> distinct (map fst (filter P xs))"
  by (induction xs) auto

lemma store_inv_remove_variable_mappings:
  assumes "store_inv s"
  shows "store_inv (snd (remove_variable_mappings varname renamed_to s))"
proof (cases renamed_to)
  case (Some n)
  with assms show ?thesis by (simp add: remove_variable_mappings_def)
next
  case None
  define to_remove where
    "to_remove = remdups (map (\<lambda>(k, pipeline). version pipeline)
                            (filter (\<lambda>(k, pipeline). uses_variable varname pipeline)
                               (sorted_list_of_fmap (version_to_pipeline s))))"
  define s1 where
    "s1 = (if to_remove \<noteq> [] then warn ''Variable was used in pipelines!'' s else s)"
  have i1: "store_inv s1" using assms by (simp add: s1_def store_inv_warn)
  have maps1: "version_to_pipeline s1 = version_to_pipeline s"
    "cell_to_version s1 = cell_to_version s" "cell_to_pipeline s1 = cell_to_pipeline s"
    by (simp_all add: s1_def warn_def)
  have sub: "set to_remove \<subseteq> fmdom' (version_to_pipeline s1)"
    using assms unfolding to_remove_def store_inv_def maps1
    by (auto simp: set_sorted_list_of_fmap intro: fmdom'I)
  from remove_versions_ok [OF _ sub] obtain s2 where
    r2: "remove_versions to_remove s1 = (Inr (), s2)" and
    v2: "version_to_pipeline s2 = fmdrop_set (set to_remove) (version_to_pipeline s)" and
    c2: "cell_to_version s2 = cell_to_version s" "cell_to_pipeline s2 = cell_to_pipeline s"
    by (auto simp: to_remove_def maps1)
  define cells where
    "cells = map fst (filter (\<lambda>(cellInfo, v). v \<in> set to_remove)
                        (sorted_list_of_fmap (cell_to_version s2)))"
  have dc: "distinct cells"
    unfolding cells_def by (intro distinct_map_fst_filter distinct_fst_sorted_list_of_fmap)
  have sc: "set cells \<subseteq> fmdom' (cell_to_version s2)"
    unfolding cells_def by (auto simp: set_sorted_list_of_fmap intro: fmdom'I)
  have eq: "fmdom (cell_to_version s2) = fmdom (cell_to_pipeline s2)"
    using assms by (simp add: c2 store_inv_def)
  from remove_cells_ok [OF dc sc eq] obtain s3 where
    r3: "remove_cells cells s2 = (Inr (), s3)" and
    a3: "cell_to_version s3 = fmdrop_set (set cells) (cell_to_version s)" and
    b3: "cell_to_pipeline s3 = fmdrop_set (set cells) (cell_to_pipeline s)" and
    v3: "version_to_pipeline s3 = fmdrop_set (set to_remove) (version_to_pipeline s)"
    by (auto simp: c2 v2)
  have mem: "c \<in> set cells \<longleftrightarrow> (\<exists>v\<in>set to_remove. fmlookup (cell_to_version s) c = Some v)" for c
    unfolding cells_def c2 by (cases c) (auto simp: set_sorted_list_of_fmap image_iff)
  have "store_inv s3"
    unfolding store_inv_def a3 b3 v3
  proof (intro conjI allI impI)
    fix c p
    assume "fmlookup (fmdrop_set (set cells) (cell_to_pipeline s)) c = Some p"
    then have nc: "c \<notin> set cells" and p: "fmlookup (cell_to_pipeline s) c = Some p"
      by (auto split: if_splits)
    from assms p have vd: "version p |\<in>| fmdom (version_to_pipeline s)"
      and cv: "fmlookup (cell_to_version s) c = Some (version p)"
      unfolding store_inv_def by blast+
    from nc cv mem have "version p \<notin> set to_remove" by auto
    with vd show "version p |\<in>| fmdom (fmdrop_set (set to_remove) (version_to_pipeline s))"
      by (auto simp: fmlookup_dom_iff)
    from nc cv show "fmlookup (fmdrop_set (set cells) (cell_to_version s)) c = Some (version p)"
      by simp
  next
    have "fmdom' (cell_to_version s) = fmdom' (cell_to_pipeline s)"
      using assms unfolding store_inv_def by (simp add: fmdom'_alt_def)
    then have "fmdom' (fmdrop_set (set cells) (cell_to_version s)) =
          fmdom' (fmdrop_set (set cells) (cell_to_pipeline s))"
      by simp
    then show "fmdom (fmdrop_set (set cells) (cell_to_version s)) =
          fmdom (fmdrop_set (set cells) (cell_to_pipeline s))"
      by (simp add: fmdom'_alt_def fset_inject)
  next
    fix k p
    assume "fmlookup (fmdrop_set (set to_remove) (version_to_pipeline s)) k = Some p"
    with assms show "version p = k"
      unfolding store_inv_def by (auto split: if_splits)
  qed
  moreover have "remove_variable_mappings varname None s = (Inr (), s3)"
    unfolding remove_variable_mappings_def Let_def
    using r2 r3
    by (simp add: to_remove_def [symmetric] s1_def [symmetric] cells_def [symmetric])
  ultimately show ?thesis using None by simp
qed

lemma store_inv_remove_variable:
  assumes "store_inv s"
  shows "store_inv (snd (remove_variable varname s))"
proof -
  obtain r s1 where m: "remove_variable_mappings varname None s = (r, s1)"
    by (cases "remove_variable_mappings varname None s")
  with store_inv_remove_variable_mappings [OF assms, of varname None] have "store_inv s1"
    by simp
  then have "store_inv (s1\<lparr>variables := vs\<rparr>)" for vs
    by (simp add: store_inv_def)
  with m \<open>store_inv s1\<close> show ?thesis
    by (auto simp: remove_variable_def split: sum.splits option.splits)
qed

lemma reachable_store_inv: "reachable s \<Longrightarrow> store_inv s"
  by (induction rule: reachable.induct)
    (auto intro: store_inv_init store_inv_discover store_inv_created store_inv_get
      store_inv_new_variable store_inv_remove_variable store_inv_rename)

text \<open>
  C9: in every state of a store that the constructor and the operations
  (\<^verbatim>\<open>_discover_cell_pipelines\<close>, \<^verbatim>\<open>created_pipeline\<close>, \<^verbatim>\<open>get_pipeline\<close> with its
  inference, \<^verbatim>\<open>new_variable\<close>, \<^verbatim>\<open>remove_variable\<close>, \<^verbatim>\<open>rename_variable\<close>) can
  reach, whether they returned or raised, every cell of \<open>cell_to_pipeline\<close> has an entry
  in \<open>version_to_pipeline\<close> for the version of its record, and \<open>cell_to_version\<close> holds
  that version.
\<close>

theorem C9_cell_records_have_versions:
  assumes "reachable s" and "fmlookup (cell_to_pipeline s) c = Some p"
  shows "(\<exists>q. fmlookup (version_to_pipeline s) (version p) = Some q \<and> version q = version p) \<and>
         fmlookup (cell_to_version s) c = Some (version p)"
proof -
  from reachable_store_inv [OF assms(1)] have
    a: "\<forall>c p. fmlookup (cell_to_pipeline s) c = Some p \<longrightarrow>
          version p |\<in>| fmdom (version_to_pipeline s) \<and>
          fmlookup (cell_to_version s) c = Some (version p)" and
    b: "\<forall>k p. fmlookup (version_to_pipeline s) k = Some p \<longrightarrow> version p = k"
    unfolding store_inv_def by blast+
  from a assms(2) have v: "version p |\<in>| fmdom (version_to_pipeline s)"
    and cv: "fmlookup (cell_to_version s) c = Some (version p)"
    by blast+
  from v obtain q where "fmlookup (version_to_pipeline s) (version p) = Some q"
    by (meson fmlookup_dom_iff)
  with b cv show ?thesis by blast
qed

theorem C9_witness:
  "reachable (snd (get_pipeline 1 (Version 13) (Some (0, 0)) example_store)) \<and>
   (\<exists>p q. fmlookup (cell_to_pipeline (snd (get_pipeline 1 (Version 13) (Some (0, 0)) example_store)))
             (0, 0) = Some p \<and>
          fmlookup (version_to_pipeline (snd (get_pipeline 1 (Version 13) (Some (0, 0)) example_store)))
             (version p) = Some q \<and>
          version q = version p)"
proof -
  let ?X = "snd (get_pipeline 1 (Version 13) (Some (0, 0)) example_store)"
  have "\<not> isl (VistrailData_init catalog0 (\<lambda>p. Some ''X'') example_doc)"
    by code_simp
  then have "VistrailData_init catalog0 (\<lambda>p. Some ''X'') example_doc = Inr example_store"
    by (simp add: example_store_def)
  then have "reachable example_store" by (rule reachable.init)
  then have r: "reachable ?X" by (rule reachable.get)
  have "fmlookup (cell_to_pipeline ?X) (0, 0) \<noteq> None"
    by code_simp
  then obtain p where p: "fmlookup (cell_to_pipeline ?X) (0, 0) = Some p" by blast
  from C9_cell_records_have_versions [OF r p] r p show ?thesis by blast
qed

subsection \<open>The recursion of inference\<close>

lemma infer_unfold:
  "infer_pipelineinfo depth v cellInfo s =
     (if v \<in> failed_infer_calls s then (Inr None, s)
      else (case fmlookup (actionMap (vistrail s)) v of
              None \<Rightarrow> fail v s
            | Some parentId \<Rightarrow>
                (case depth of
                   0 \<Rightarrow> (Inl RuntimeError, s)
                 | Suc d \<Rightarrow>
                     (case get_pipeline_version d parentId (Some cellInfo) s of
                        (Inl e, s') \<Rightarrow> (Inl e, s')
                      | (Inr None, s') \<Rightarrow> fail v s'
                      | (Inr (Some parentInfo), s') \<Rightarrow>
                          project_pipelineinfo v cellInfo parentInfo s'))))"
  by (rule infer_pipelineinfo.simps)

lemma get_version_Some:
  "fmlookup (version_to_pipeline s) v = Some p \<Longrightarrow>
   get_pipeline_version d v ic s = (Inr (Some p), s)"
  by (simp add: get_pipeline_version.simps)

lemma get_version_None_infer:
  "fmlookup (version_to_pipeline s) v = None \<Longrightarrow>
   get_pipeline_version d v (Some c) s = infer_pipelineinfo d v c s"
  by (simp add: get_pipeline_version.simps)

lemma get_version_None_None:
  "fmlookup (version_to_pipeline s) v = None \<Longrightarrow>
   get_pipeline_version d v None s = (Inr None, s)"
  by (simp add: get_pipeline_version.simps)

text \<open>A call that returns with a given depth returns the same with any greater depth.\<close>

lemma depth_mono:
  "get_pipeline_version d u ic s = (Inr r, s1) \<Longrightarrow> d \<le> d' \<Longrightarrow>
     get_pipeline_version d' u ic s = (Inr r, s1)"
  "infer_pipelineinfo d u c s = (Inr r, s1) \<Longrightarrow> d \<le> d' \<Longrightarrow>
     infer_pipelineinfo d' u c s = (Inr r, s1)"
proof (induction d u ic s and d u c s arbitrary: r s1 d' and r s1 d'
    rule: get_pipeline_version_infer_pipelineinfo.induct)
  case (1 depth v infer_for_cell s)
  show ?case
  proof (cases "fmlookup (version_to_pipeline s) v")
    case (Some a)
    from "1.prems"(1) show ?thesis
      unfolding get_version_Some [OF Some] by simp
  next
    case None
    show ?thesis
    proof (cases infer_for_cell)
      case None
      with "1.prems" \<open>fmlookup (version_to_pipeline s) v = None\<close> show ?thesis
        by (simp add: get_pipeline_version.simps)
    next
      case (Some cellInfo)
      with "1.prems" \<open>fmlookup (version_to_pipeline s) v = None\<close>
      have "infer_pipelineinfo depth v cellInfo s = (Inr r, s1)"
        by (simp add: get_pipeline_version.simps)
      from "1.IH" [OF \<open>fmlookup (version_to_pipeline s) v = None\<close> Some this "1.prems"(2)]
      show ?thesis
        using Some \<open>fmlookup (version_to_pipeline s) v = None\<close>
        by (simp add: get_pipeline_version.simps)
    qed
  qed
next
  case (2 depth v cellInfo s)
  show ?case
  proof (cases "v \<in> failed_infer_calls s")
    case True
    with "2.prems" show ?thesis by (simp add: infer_unfold)
  next
    case nf: False
    show ?thesis
    proof (cases "fmlookup (actionMap (vistrail s)) v")
      case None
      with nf "2.prems" show ?thesis by (simp add: infer_unfold)
    next
      case (Some parentId)
      from "2.prems"(1) nf Some obtain d where d: "depth = Suc d"
        by (cases depth) (auto simp: infer_unfold)
      with "2.prems"(2) obtain e where e: "d' = Suc e" and de: "d \<le> e"
        by (cases d') auto
      obtain r0 s0 where g: "get_pipeline_version d parentId (Some cellInfo) s = (r0, s0)"
        by (cases "get_pipeline_version d parentId (Some cellInfo) s")
      with "2.prems"(1) nf Some d obtain r0' where r0: "r0 = Inr r0'"
        by (cases r0) (auto simp: infer_unfold)
      from "2.IH" [OF nf Some d g [unfolded r0] de]
      have g': "get_pipeline_version e parentId (Some cellInfo) s = (Inr r0', s0)" .
      from "2.prems"(1) show ?thesis
        unfolding infer_unfold [of depth] infer_unfold [of d']
        by (simp add: nf Some d e g g' r0)
    qed
  qed
qed

lemma register_v2p:
  "version_to_pipeline (snd (register_pipeline c p s)) =
     fmupd (version p) p (version_to_pipeline s)"
  by (auto simp: register_pipeline_def Let_def annotate_def split: sum.splits option.splits)

lemma created_v2p_other:
  "w \<noteq> version p \<Longrightarrow>
   fmlookup (version_to_pipeline (snd (created_pipeline same c p s))) w =
     fmlookup (version_to_pipeline s) w"
  by (auto simp: created_pipeline_def register_v2p warn_def split: option.splits)

lemma fail_v2p: "version_to_pipeline (snd (fail v s)) = version_to_pipeline s"
  by (simp add: fail_def)

lemma project_v2p_other:
  "w \<noteq> v \<Longrightarrow>
   fmlookup (version_to_pipeline (snd (project_pipelineinfo v c parentInfo s))) w =
     fmlookup (version_to_pipeline s) w"
  unfolding project_pipelineinfo_def Let_def
  by (auto split: option.splits sum.splits prod.splits
      simp: fail_v2p split_beta created_v2p_other)

text \<open>
  A version whose entry changed during a call that returned was itself inferred by a
  call, on the state the outer call started from.
\<close>

lemma touched:
  "get_pipeline_version d u ic s = (Inr r, s1) \<Longrightarrow>
     fmlookup (version_to_pipeline s1) w \<noteq> fmlookup (version_to_pipeline s) w \<Longrightarrow>
     \<exists>m\<le>d. \<exists>c r2 s2. ic = Some c \<and> infer_pipelineinfo m w c s = (Inr r2, s2)"
  "infer_pipelineinfo d u c s = (Inr r, s1) \<Longrightarrow>
     fmlookup (version_to_pipeline s1) w \<noteq> fmlookup (version_to_pipeline s) w \<Longrightarrow>
     \<exists>m\<le>d. \<exists>r2 s2. infer_pipelineinfo m w c s = (Inr r2, s2)"
proof (induction d u ic s and d u c s arbitrary: r s1 and r s1
    rule: get_pipeline_version_infer_pipelineinfo.induct)
  case (1 depth v infer_for_cell s)
  show ?case
  proof (cases "fmlookup (version_to_pipeline s) v")
    case (Some a)
    from "1.prems" show ?thesis
      unfolding get_version_Some [OF Some] by simp
  next
    case None
    show ?thesis
    proof (cases infer_for_cell)
      case n: None
      from "1.prems" show ?thesis
        unfolding n get_version_None_None [OF None] by simp
    next
      case (Some cellInfo)
      from "1.prems"(1) have "infer_pipelineinfo depth v cellInfo s = (Inr r, s1)"
        unfolding Some get_version_None_infer [OF None] .
      from "1.IH" [OF None Some this "1.prems"(2)] Some show ?thesis by blast
    qed
  qed
next
  case (2 depth v cellInfo s)
  show ?case
  proof (cases "v \<in> failed_infer_calls s")
    case True
    with "2.prems"(1) have "s1 = s" by (simp add: infer_unfold)
    with "2.prems"(2) show ?thesis by simp
  next
    case nf: False
    show ?thesis
    proof (cases "fmlookup (actionMap (vistrail s)) v")
      case None
      with nf "2.prems"(1) have "s1 = snd (fail v s)" by (simp add: infer_unfold)
      with "2.prems"(2) show ?thesis by (simp add: fail_v2p)
    next
      case (Some parentId)
      from "2.prems"(1) nf Some obtain d where d: "depth = Suc d"
        by (cases depth) (auto simp: infer_unfold)
      obtain r0 s0 where g: "get_pipeline_version d parentId (Some cellInfo) s = (r0, s0)"
        by (cases "get_pipeline_version d parentId (Some cellInfo) s")
      with "2.prems"(1) nf Some d obtain r0' where r0: "r0 = Inr r0'"
        by (cases r0) (auto simp: infer_unfold)
      note IH = "2.IH" [OF nf Some d g [unfolded r0]]
      show ?thesis
      proof (cases "fmlookup (version_to_pipeline s0) w = fmlookup (version_to_pipeline s) w")
        case False
        from IH [OF False] obtain m r2 s2 where
          "m \<le> d" and "infer_pipelineinfo m w cellInfo s = (Inr r2, s2)"
          by auto
        with d show ?thesis
          by (intro exI [of _ m]) auto
      next
        case same: True
        have "w = v"
        proof (rule ccontr)
          assume ne: "w \<noteq> v"
          have "fmlookup (version_to_pipeline s1) w = fmlookup (version_to_pipeline s0) w"
          proof (cases r0')
            case None
            with "2.prems"(1) nf Some d g r0 have "s1 = snd (fail v s0)"
              by (simp add: infer_unfold)
            then show ?thesis by (simp add: fail_v2p)
          next
            case (Some parentInfo)
            with "2.prems"(1) nf \<open>fmlookup (actionMap (vistrail s)) v = Some parentId\<close> d g r0
            have "s1 = snd (project_pipelineinfo v cellInfo parentInfo s0)"
              by (simp add: infer_unfold)
            then show ?thesis by (simp add: project_v2p_other [OF ne])
          qed
          with same "2.prems"(2) show False by simp
        qed
        with "2.prems"(1) show ?thesis by blast
      qed
    qed
  qed
qed

text \<open>
  The call on the parent leaves the entry of the version that is being inferred alone.
\<close>

lemma parent_call_keeps_entry:
  "infer_pipelineinfo n v c s = (Inr r, s') \<Longrightarrow> v \<notin> failed_infer_calls s \<Longrightarrow>
   fmlookup (actionMap (vistrail s)) v = Some p \<Longrightarrow> n = Suc d \<Longrightarrow>
   get_pipeline_version d p (Some c) s = (Inr r0, s0) \<Longrightarrow>
   fmlookup (version_to_pipeline s0) v = fmlookup (version_to_pipeline s) v"
proof (induction n arbitrary: r s' d r0 s0 rule: less_induct)
  case (less n)
  show ?case
  proof (rule ccontr)
    assume ch: "fmlookup (version_to_pipeline s0) v \<noteq> fmlookup (version_to_pipeline s) v"
    from touched(1) [OF less.prems(5) ch] obtain m r2 s2 where
      m: "m \<le> d" and i: "infer_pipelineinfo m v c s = (Inr r2, s2)"
      by blast
    from i less.prems(2,3) obtain d2 where d2: "m = Suc d2"
      by (cases m) (auto simp: infer_unfold)
    obtain q s3 where g2: "get_pipeline_version d2 p (Some c) s = (q, s3)"
      by (cases "get_pipeline_version d2 p (Some c) s")
    with i less.prems(2,3) d2 obtain q' where q: "q = Inr q'"
      by (cases q) (auto simp: infer_unfold)
    have "m < n" using m less.prems(4) by simp
    from less.IH [OF this i less.prems(2,3) d2 g2 [unfolded q]]
    have keep: "fmlookup (version_to_pipeline s3) v = fmlookup (version_to_pipeline s) v" .
    have "d2 \<le> d" using m d2 by simp
    from depth_mono(1) [OF g2 [unfolded q] this] less.prems(5) have "s3 = s0" by simp
    with keep ch show False by simp
  qed
qed

subsection \<open>Inference twice\<close>

lemma failed_assign_cells: "failed_infer_calls (assign_cells ys s) = failed_infer_calls s"
  by (induction ys s rule: assign_cells.induct) auto

lemma failed_annotate: "failed_infer_calls (annotate v k val s) = failed_infer_calls s"
  by (simp add: annotate_def)

lemma failed_remove_versions:
  "failed_infer_calls (snd (remove_versions vs s)) = failed_infer_calls s"
proof (induction vs arbitrary: s)
  case Nil
  then show ?case by simp
next
  case (Cons v vs)
  show ?case
  proof (cases "fmlookup (version_to_pipeline s) v")
    case None
    then show ?thesis by simp
  next
    case (Some p)
    let ?s = "annotate v PORTMAP_KEY None
                (annotate v RECIPE_KEY None
                   (s\<lparr>version_to_pipeline := fmdrop v (version_to_pipeline s)\<rparr>))"
    have "remove_versions (v # vs) s = remove_versions vs ?s"
      by (simp add: Some)
    with Cons.IH [of ?s] show ?thesis
      by (simp add: failed_annotate)
  qed
qed

lemma failed_remove_cells:
  "failed_infer_calls (snd (remove_cells cs s)) = failed_infer_calls s"
proof (induction cs arbitrary: s)
  case Nil
  then show ?case by simp
next
  case (Cons c cs)
  show ?case
  proof (cases "fmlookup (cell_to_version s) c")
    case None
    then show ?thesis by simp
  next
    case (Some v)
    let ?s1 = "s\<lparr>cell_to_version := fmdrop c (cell_to_version s)\<rparr>"
    show ?thesis
    proof (cases "fmlookup (cell_to_pipeline s) c")
      case None
      with Some show ?thesis by (simp add: Let_def)
    next
      case p: (Some p)
      let ?s2 = "?s1\<lparr>cell_to_pipeline := fmdrop c (cell_to_pipeline ?s1)\<rparr>"
      have "remove_cells (c # cs) s = remove_cells cs ?s2"
        by (simp add: Some p Let_def)
      with Cons.IH [of ?s2] show ?thesis by simp
    qed
  qed
qed

lemma failed_reannotate:
  "failed_infer_calls (snd (reannotate n xs s)) = failed_infer_calls s"
  by (induction n xs s rule: reannotate.induct)
    (auto simp: annotate_def split: sum.splits)

lemma failed_remove_variable_mappings:
  "failed_infer_calls (snd (remove_variable_mappings n rt s)) = failed_infer_calls s"
proof (cases rt)
  case (Some a)
  then show ?thesis by (simp add: remove_variable_mappings_def)
next
  case None
  define tr where "tr = remdups (map (\<lambda>(k, pipeline). version pipeline)
                            (filter (\<lambda>(k, pipeline). uses_variable n pipeline)
                               (sorted_list_of_fmap (version_to_pipeline s))))"
  define s1 where "s1 = (if tr \<noteq> [] then warn ''Variable was used in pipelines!'' s else s)"
  obtain r2 s2 where r2: "remove_versions tr s1 = (r2, s2)"
    by (cases "remove_versions tr s1")
  have f1: "failed_infer_calls s1 = failed_infer_calls s"
    by (simp add: s1_def warn_def)
  have f2: "failed_infer_calls s2 = failed_infer_calls s"
    using failed_remove_versions [of tr s1] r2 f1 by simp
  show ?thesis
    unfolding remove_variable_mappings_def None Let_def
    using f2 r2 failed_remove_cells [of _ s2]
    by (auto simp: tr_def [symmetric] s1_def [symmetric] split: sum.splits)
qed

lemma failed_remove_variable:
  "failed_infer_calls (snd (remove_variable n s)) = failed_infer_calls s"
proof -
  obtain r s1 where m: "remove_variable_mappings n None s = (r, s1)"
    by (cases "remove_variable_mappings n None s")
  with failed_remove_variable_mappings [of n None s]
  have f: "failed_infer_calls s1 = failed_infer_calls s" by simp
  show ?thesis
    unfolding remove_variable_def m
    by (cases r; cases "fmlookup (variables s1) n") (simp_all add: f)
qed

lemma failed_rename_variable:
  "failed_infer_calls (snd (rename_variable old new s)) = failed_infer_calls s"
  by (auto simp: rename_variable_def remove_variable_mappings_def Let_def failed_reannotate
      split: option.splits)

lemma failed_get_pipeline:
  "failed_infer_calls s \<subseteq> failed_infer_calls (snd (get_pipeline depth param ic s))"
proof (cases param)
  case (Version v)
  from store_frame_get_infer(1) [of s depth v ic] show ?thesis
    by (simp add: get_pipeline_def Version store_frame_def)
next
  case (Cell c)
  then show ?thesis by (simp add: get_pipeline_def)
qed

lemma evolves_failed: "evolves s s' \<Longrightarrow> failed_infer_calls s \<subseteq> failed_infer_calls s'"
proof (induction rule: evolves.induct)
  case (same s)
  then show ?case by simp
next
  case (discover s s' location)
  then show ?case by (simp add: discover_cell_pipelines_def failed_assign_cells)
next
  case (created s s' same cellInfo pipeline)
  with store_frame_created [of s' same cellInfo pipeline] show ?case
    by (auto simp: store_frame_def)
next
  case (get s s' depth param infer_for_cell)
  with failed_get_pipeline [of s' depth param infer_for_cell] show ?case by blast
next
  case (new_var s s' varname variable)
  then show ?case by (auto simp: new_variable_def split: option.splits)
next
  case (remove_var s s' varname)
  then show ?case by (simp add: failed_remove_variable)
next
  case (rename_var s s' old_varname new_varname)
  then show ?case by (simp add: failed_rename_variable)
qed

lemma created_stores:
  "fmlookup (version_to_pipeline (snd (created_pipeline False c p s))) (version p) = Some p"
  by (auto simp: created_pipeline_def register_v2p split: option.splits)

lemma project_None:
  "project_pipelineinfo v c parentInfo s = (Inr None, s') \<Longrightarrow> s' = snd (fail v s)"
  unfolding project_pipelineinfo_def Let_def
  by (auto split: option.splits if_splits sum.splits prod.splits simp: fail_def)

lemma infer_None:
  assumes "infer_pipelineinfo depth v c s = (Inr None, s')"
    and "fmlookup (version_to_pipeline s) v = None"
  shows "v \<in> failed_infer_calls s' \<and> fmlookup (version_to_pipeline s') v = None"
proof (cases "v \<in> failed_infer_calls s")
  case True
  with assms(1) have "s' = s" by (simp add: infer_unfold)
  with True assms(2) show ?thesis by simp
next
  case nf: False
  show ?thesis
  proof (cases "fmlookup (actionMap (vistrail s)) v")
    case None
    with nf assms(1) have "s' = snd (fail v s)" by (simp add: infer_unfold)
    with assms(2) show ?thesis by (simp add: fail_def)
  next
    case (Some parentId)
    from assms(1) nf Some obtain d where d: "depth = Suc d"
      by (cases depth) (auto simp: infer_unfold)
    obtain r0 s0 where g: "get_pipeline_version d parentId (Some c) s = (r0, s0)"
      by (cases "get_pipeline_version d parentId (Some c) s")
    with assms(1) nf Some d obtain r0' where r0: "r0 = Inr r0'"
      by (cases r0) (auto simp: infer_unfold)
    from parent_call_keeps_entry [OF assms(1) nf Some d g [unfolded r0]] assms(2)
    have keep: "fmlookup (version_to_pipeline s0) v = None" by simp
    have "s' = snd (fail v s0)"
    proof (cases r0')
      case None
      with assms(1) nf Some d g r0 show ?thesis by (simp add: infer_unfold)
    next
      case (Some parentInfo)
      with assms(1) nf \<open>fmlookup (actionMap (vistrail s)) v = Some parentId\<close> d g r0
      have "project_pipelineinfo v c parentInfo s0 = (Inr None, s')"
        by (simp add: infer_unfold)
      then show ?thesis by (rule project_None)
    qed
    with keep show ?thesis by (simp add: fail_def)
  qed
qed

lemma get_Some_stored:
  assumes "get_pipeline_version depth v (Some c) s = (Inr (Some info), s')"
  shows "fmlookup (version_to_pipeline s') v = Some info"
proof (cases "fmlookup (version_to_pipeline s) v")
  case (Some p)
  from assms have "p = info" and "s' = s"
    unfolding get_version_Some [OF Some] by simp_all
  with Some show ?thesis by simp
next
  case None
  from assms have "infer_pipelineinfo depth v c s = (Inr (Some info), s')"
    unfolding get_version_None_infer [OF None] .
  from infer_pipelineinfo_Some [OF this] obtain parentInfo s1 where
    "project_pipelineinfo v c parentInfo s1 = (Inr (Some info), s')"
    by blast
  from project_pipelineinfo_Some [OF this] obtain pm np nc where
    info: "info = \<lparr>version = v,
                   recipe = \<lparr>plot = plot (recipe parentInfo), parameters = np\<rparr>,
                   conn_map = nc, port_map = port_map parentInfo\<rparr>" and
    cr: "created_pipeline False c info s1 = (Inr (), s')"
    by blast
  from info have vi: "version info = v" by simp
  from created_stores [of c info s1] show ?thesis
    unfolding cr vi by simp
qed

lemma get_None_failed:
  assumes "get_pipeline_version depth v (Some c) s = (Inr None, s')"
  shows "v \<in> failed_infer_calls s' \<and> fmlookup (version_to_pipeline s') v = None"
proof (cases "fmlookup (version_to_pipeline s) v")
  case (Some p)
  from assms show ?thesis
    unfolding get_version_Some [OF Some] by simp
next
  case None
  from assms have "infer_pipelineinfo depth v c s = (Inr None, s')"
    unfolding get_version_None_infer [OF None] .
  from infer_None [OF this None] show ?thesis .
qed

lemma infer_failed: "v \<in> failed_infer_calls s \<Longrightarrow> infer_pipelineinfo d v c s = (Inr None, s)"
  by (subst infer_unfold) simp

text \<open>
  C6 as the spec states it, for every later call: after inference for a version has
  failed, a later \<^verbatim>\<open>get_pipeline\<close> for it does not return \<^verbatim>\<open>None\<close> once
  \<^verbatim>\<open>created_pipeline\<close> has registered a record for the version. \<^verbatim>\<open>get_pipeline\<close>
  looks the version up in the dictionary of records before it asks for inference. In
  \<open>fresh_store\<close> inference for version 13 fails (its parent has no record); then a
  record for version 13 is registered, and the next call returns that record, with 13
  still in the failure memo.
\<close>

theorem C6_counterexample:
  "fst (get_pipeline 5 (Version 13) (Some (0, 0)) fresh_store) = Inr None \<and>
   13 \<in> failed_infer_calls (snd (get_pipeline 5 (Version 13) (Some (0, 0)) fresh_store)) \<and>
   fst (created_pipeline False (0, 0) child_info
          (snd (get_pipeline 5 (Version 13) (Some (0, 0)) fresh_store))) = Inr () \<and>
   13 \<in> failed_infer_calls
          (snd (created_pipeline False (0, 0) child_info
                  (snd (get_pipeline 5 (Version 13) (Some (0, 0)) fresh_store)))) \<and>
   fst (get_pipeline 5 (Version 13) (Some (0, 0))
          (snd (created_pipeline False (0, 0) child_info
                  (snd (get_pipeline 5 (Version 13) (Some (0, 0)) fresh_store)))))
     = Inr (Some child_info)"
  by code_simp

text \<open>
  C6, amended: when \<^verbatim>\<open>get_pipeline(v, infer_for_cell=c)\<close> returns, the same call
  made again, for any cell and with any recursion depth left, returns the same result and
  leaves the store as it is. If the result is a record, it is the record stored for
  \<open>v\<close>. If the result is \<^verbatim>\<open>None\<close>, then \<open>v\<close> is in the failure memo, and it
  stays there whatever operations follow; from then on \<^verbatim>\<open>_infer_pipelineinfo\<close> for
  \<open>v\<close> returns \<^verbatim>\<open>None\<close> at once, without a recursive call and without a change
  of the store, and so does \<^verbatim>\<open>get_pipeline\<close> as long as no record has been
  registered for \<open>v\<close>.
\<close>

theorem C6_inference_idempotent:
  assumes "get_pipeline depth (Version v) (Some c) s = (Inr r, s')"
  shows "(\<forall>depth' c'. get_pipeline depth' (Version v) (Some c') s' = (Inr r, s')) \<and>
         (\<forall>info. r = Some info \<longrightarrow> fmlookup (version_to_pipeline s') v = Some info) \<and>
         (r = None \<longrightarrow>
            v \<in> failed_infer_calls s' \<and>
            (\<forall>s''. evolves s' s'' \<longrightarrow>
               v \<in> failed_infer_calls s'' \<and>
               (\<forall>d c'. infer_pipelineinfo d v c' s'' = (Inr None, s'')) \<and>
               (\<forall>d c'. fmlookup (version_to_pipeline s'') v = None \<longrightarrow>
                  get_pipeline d (Version v) (Some c') s'' = (Inr None, s''))))"
proof -
  from assms have g: "get_pipeline_version depth v (Some c) s = (Inr r, s')"
    by (simp add: get_pipeline_def)
  show ?thesis
  proof (cases r)
    case (Some info)
    from get_Some_stored [OF g [unfolded Some]]
    have st: "fmlookup (version_to_pipeline s') v = Some info" .
    have "get_pipeline depth' (Version v) (Some c') s' = (Inr r, s')" for depth' c'
      unfolding get_pipeline_def pipeline_key.case get_version_Some [OF st] Some ..
    with st Some show ?thesis by simp
  next
    case None
    from get_None_failed [OF g [unfolded None]]
    have f: "v \<in> failed_infer_calls s'" and n: "fmlookup (version_to_pipeline s') v = None"
      by simp_all
    have a: "get_pipeline depth' (Version v) (Some c') s' = (Inr r, s')" for depth' c'
      unfolding get_pipeline_def pipeline_key.case get_version_None_infer [OF n]
        infer_failed [OF f] None ..
    have l: "v \<in> failed_infer_calls s'' \<and> infer_pipelineinfo d v c' s'' = (Inr None, s'')"
      if "evolves s' s''" for s'' d c'
    proof -
      from f evolves_failed [OF that] have "v \<in> failed_infer_calls s''" by blast
      then show ?thesis by (simp add: infer_failed)
    qed
    have m: "get_pipeline d (Version v) (Some c') s'' = (Inr None, s'')"
      if "evolves s' s''" and "fmlookup (version_to_pipeline s'') v = None" for s'' d c'
      unfolding get_pipeline_def pipeline_key.case get_version_None_infer [OF that(2)]
      using l [OF that(1)] by simp
    show ?thesis
    proof (intro conjI allI impI)
      fix depth' c'
      show "get_pipeline depth' (Version v) (Some c') s' = (Inr r, s')" by (rule a)
    next
      fix info assume "r = Some info"
      with None show "fmlookup (version_to_pipeline s') v = Some info" by simp
    next
      show "v \<in> failed_infer_calls s'" by (rule f)
    next
      fix s'' assume "evolves s' s''"
      from l [OF this] show "v \<in> failed_infer_calls s''" by (rule conjunct1)
    next
      fix s'' d c' assume "evolves s' s''"
      from l [OF this] show "infer_pipelineinfo d v c' s'' = (Inr None, s'')" by (rule conjunct2)
    next
      fix s'' d c'
      assume "evolves s' s''" and "fmlookup (version_to_pipeline s'') v = None"
      then show "get_pipeline d (Version v) (Some c') s'' = (Inr None, s'')" by (rule m)
    qed
  qed
qed

theorem C6_witness:
  "fst (get_pipeline 5 (Version 13) (Some (0, 0)) fresh_store) = Inr None \<and>
   fst (get_pipeline 0 (Version 13) (Some (1, 1))
          (snd (get_pipeline 5 (Version 13) (Some (0, 0)) fresh_store))) = Inr None \<and>
   13 \<in> failed_infer_calls
          (snd (new_variable ''C'' var_A (snd (get_pipeline 5 (Version 13) (Some (0, 0)) fresh_store)))) \<and>
   fst (get_pipeline 5 (Version 12) (Some (0, 0)) partial_store) = Inr (Some parent_info) \<and>
   fst (get_pipeline 0 (Version 12) (Some (1, 1))
          (snd (get_pipeline 5 (Version 12) (Some (0, 0)) partial_store))) = Inr (Some parent_info)"
proof -
  let ?s1 = "snd (get_pipeline 5 (Version 13) (Some (0, 0)) fresh_store)"
  let ?s2 = "snd (get_pipeline 5 (Version 12) (Some (0, 0)) partial_store)"
  have a: "fst (get_pipeline 5 (Version 13) (Some (0, 0)) fresh_store) = Inr None"
    by code_simp
  then have a': "get_pipeline 5 (Version 13) (Some (0, 0)) fresh_store = (Inr None, ?s1)"
    by (metis prod.collapse)
  have b: "fst (get_pipeline 5 (Version 12) (Some (0, 0)) partial_store) = Inr (Some parent_info)"
    by code_simp
  then have b': "get_pipeline 5 (Version 12) (Some (0, 0)) partial_store
                   = (Inr (Some parent_info), ?s2)"
    by (metis prod.collapse)
  have e: "evolves ?s1 (snd (new_variable ''C'' var_A ?s1))"
    by (intro evolves.new_var evolves.same)
  from C6_inference_idempotent [OF a'] e
  have c: "get_pipeline 0 (Version 13) (Some (1, 1)) ?s1 = (Inr None, ?s1)"
    and d: "13 \<in> failed_infer_calls (snd (new_variable ''C'' var_A ?s1))"
    by blast+
  from C6_inference_idempotent [OF b']
  have f: "get_pipeline 0 (Version 12) (Some (1, 1)) ?s2 = (Inr (Some parent_info), ?s2)"
    by blast
  from a b c d f show ?thesis by simp
qed

end
